theory Spec2Isabelle
  imports Main
begin

section \<open>JavaScript values, errors and strings\<close>

text \<open>
  The library (\<^verbatim>\<open>window.dom\<close>) is a set of free functions over the host's document
  tree. Objects are mutable and shared, so they live in a store and are named by
  references; a call takes the store and returns the new one. Every \<^verbatim>\<open>throw\<close> of the
  source, and every exception the JavaScript engine or the host raises on the paths the
  source takes, is the \<open>Inl\<close> branch of the result.

  Strings are \<^typ>\<open>string\<close>; a \<^typ>\<open>char\<close> stands for one code unit below 256.
  Numbers are modelled by \<^typ>\<open>int\<close> (the functions here only test numbers for
  truthiness, compare a node type with 1 and 12, and print them).
\<close>

type_synonym ref = nat

datatype js_value = JUndefined | JNull | JBool bool | JNum int | JStr string | JObj ref

datatype error =
    TypeError \<comment> \<open>the engine's: a property read on \<^verbatim>\<open>null\<close> or \<^verbatim>\<open>undefined\<close>\<close>
  | Error string \<comment> \<open>\<^verbatim>\<open>throw new Error(message)\<close> of the source\<close>
  | DOMException string \<comment> \<open>raised by a host primitive, by name\<close>

text \<open>A host primitive fails with the name of its exception.\<close>

definition from_host :: "string + 'a \<Rightarrow> error + 'a" where
  "from_host r = (case r of Inl name \<Rightarrow> Inl (DOMException name) | Inr v \<Rightarrow> Inr v)"



text \<open>\<^verbatim>\<open>isString(value)\<close> and \<^verbatim>\<open>isObject(value)\<close> (lines 983-996).\<close>

fun isString :: "js_value \<Rightarrow> bool" where
  "isString (JStr s) = True"
| "isString v = False"

fun isObject :: "js_value \<Rightarrow> bool" where
  "isObject (JObj r) = True"
| "isObject v = False"

text \<open>
  \<^verbatim>\<open>'' + value\<close>: the decimal digits of a number, the usual names of the other
  primitives; an object prints as \<^verbatim>\<open>Object.prototype.toString\<close> prints it.
\<close>

function digits :: "nat \<Rightarrow> string" where
  "digits n =
     (if n < 10 then [''0123456789'' ! n]
      else digits (n div 10) @ [''0123456789'' ! (n mod 10)])"
  by pat_completeness auto
termination
  by (relation "measure id") auto

declare digits.simps [simp del]

fun to_string :: "js_value \<Rightarrow> string" where
  "to_string JUndefined = ''undefined''"
| "to_string JNull = ''null''"
| "to_string (JBool b) = (if b then ''true'' else ''false'')"
| "to_string (JNum n) = (if n < 0 then CHR ''-'' # digits (nat (- n)) else digits (nat n))"
| "to_string (JStr s) = s"
| "to_string (JObj r) = ''[object Object]''"

text \<open>
  A value assigned to \<^verbatim>\<open>textContent\<close> or \<^verbatim>\<open>innerHTML\<close>: \<^verbatim>\<open>null\<close> is the empty string.
\<close>

definition to_content :: "js_value \<Rightarrow> string" where
  "to_content v = (if v = JNull then [] else to_string v)"

subsection \<open>String and array methods the source calls\<close>

text \<open>
  \<^verbatim>\<open>String.prototype.trim\<close> strips white space and line terminators at both ends; these are
  the ones below 256.
\<close>

definition js_whitespace :: "char \<Rightarrow> bool" where
  "js_whitespace c \<longleftrightarrow>
     c \<in> set [CHR 0x09, CHR 0x0A, CHR 0x0B, CHR 0x0C, CHR 0x0D, CHR 0x20, CHR 0xA0]"

definition trim :: "string \<Rightarrow> string" where
  "trim s = rev (dropWhile js_whitespace (rev (dropWhile js_whitespace s)))"

text \<open>
  \<^verbatim>\<open>s.split(' ')\<close>: the pieces between single spaces (\<open>cur\<close> is the piece being read).
\<close>

fun split_on :: "string \<Rightarrow> string \<Rightarrow> string list" where
  "split_on cur [] = [cur]"
| "split_on cur (c # cs) =
     (if c = CHR '' '' then cur # split_on [] cs else split_on (cur @ [c]) cs)"

text \<open>
  \<^verbatim>\<open>s.split(/ +/)\<close>: the pieces between maximal runs of spaces; the empty string gives
  one empty piece.
\<close>

function split_runs :: "string \<Rightarrow> string \<Rightarrow> string list" where
  "split_runs cur [] = [cur]"
| "split_runs cur (c # cs) =
     (if c = CHR '' '' then cur # split_runs [] (dropWhile (\<lambda>d. d = CHR '' '') cs)
      else split_runs (cur @ [c]) cs)"
  by pat_completeness auto
termination
  by (relation "measure (\<lambda>(cur, s). length s)")
     (auto simp add: less_Suc_eq_le length_dropWhile_le)

text \<open>\<^verbatim>\<open>names.join(' ')\<close>\<close>

fun join :: "string list \<Rightarrow> string" where
  "join [] = []"
| "join [x] = x"
| "join (x # y # ys) = x @ CHR '' '' # join (y # ys)"

text \<open>\<^verbatim>\<open>array.indexOf(x)\<close> and \<^verbatim>\<open>array.splice(i, 1)\<close> for \<open>i \<ge> 0\<close>.\<close>

fun indexOf :: "'a list \<Rightarrow> 'a \<Rightarrow> int" where
  "indexOf [] x = - 1"
| "indexOf (y # ys) x =
     (if y = x then 0 else (let i = indexOf ys x in if i < 0 then - 1 else i + 1))"

definition splice1 :: "'a list \<Rightarrow> int \<Rightarrow> 'a list" where
  "splice1 xs i = take (nat i) xs @ drop (nat i + 1) xs"

text \<open>The letters of \<^verbatim>\<open>/[A-Z]/\<close> and \<^verbatim>\<open>toLowerCase\<close> on them.\<close>

definition upper_case :: string where
  "upper_case = ''ABCDEFGHIJKLMNOPQRSTUVWXYZ''"

definition lower_case :: string where
  "lower_case = ''abcdefghijklmnopqrstuvwxyz''"

definition toLowerCase :: "char \<Rightarrow> char" where
  "toLowerCase c = (case map_of (zip upper_case lower_case) c of None \<Rightarrow> c | Some l \<Rightarrow> l)"

section \<open>The store: nodes and the module's state\<close>

text \<open>
  An object of the store. \<open>nodeType\<close> is \<open>None\<close> for an object without that property
  (a plain \<^verbatim>\<open>{}\<close>). \<open>classList\<close> and \<open>dataset\<close> are the host's token list and string map
  when the element has the capability, \<open>None\<close> when it lacks it; \<open>methods\<close> lists the
  native methods the object exposes, by property name (what a capability probe such as
  \<^verbatim>\<open>element.matches || element.matchesSelector\<close> sees). The class attribute is the
  entry \<open>''class''\<close> of \<open>attributes\<close>.
\<close>

record node =
  nodeType :: "int option"
  parentNode :: "ref option"
  childNodes :: "ref list"
  attributes :: "string \<rightharpoonup> string"
  classList :: "string list option"
  dataset :: "(string \<rightharpoonup> string) option"
  methods :: "string list"

text \<open>A range: its two boundary points (container and offset).\<close>

record range_obj =
  startContainer :: ref
  startOffset :: nat
  endContainer :: ref
  endOffset :: nat

text \<open>
  The store, the allocation pointer (every reference at or above it is unused), and the
  module's two lazily created singletons (\<^verbatim>\<open>let docRange = null\<close>,
  \<^verbatim>\<open>let nodeFactory = null\<close>, lines 28 and 31).
\<close>

record dom_state =
  nodes :: "ref \<Rightarrow> node"
  next_ref :: ref
  docRange :: "range_obj option"
  nodeFactory :: "ref option"

text \<open>The global \<^verbatim>\<open>document\<close>.\<close>

definition document :: ref where
  "document = 0"

text \<open>Markup as the host's parser returns it: a forest of node descriptions.\<close>

datatype markup =
  Markup (m_type: int) (m_attrs: "(string \<times> string) list") (m_children: "markup list")

text \<open>
  The \<^verbatim>\<open>config\<close> argument of \<^verbatim>\<open>event\<close>: left out, \<^verbatim>\<open>null\<close>, or an object; and an event
  object, which records how it was made: by the constructor \<^verbatim>\<open>new window[type](name, config)\<close>
  or by \<^verbatim>\<open>document.createEvent(type)\<close> and the \<^verbatim>\<open>init\<close> method with its arguments.
\<close>

type_synonym config = "string \<rightharpoonup> js_value"


datatype event_obj =
    Constructed string string "config option"
  | Initialized string "js_value list"

text \<open>
  The host primitives whose result the source only passes on are parameters. A primitive
  that can raise returns \<open>Inl\<close> with the exception's name.
  \<^item> \<open>blank_node t\<close>: the capabilities of a fresh node of type \<open>t\<close>;
  \<^item> \<open>createContextualFragment\<close>: the range's method when the host has it;
  \<^item> \<open>constructs_event type name config\<close>: \<^verbatim>\<open>new window[type](name, config)\<close> returns
    (it throws otherwise, also when the constructor is missing);
  \<^item> \<open>createEvent_error type\<close>: the exception of \<^verbatim>\<open>document.createEvent(type)\<close>, if any;
    \<open>has_init type\<close>: the created event has the method \<^verbatim>\<open>'init' + type\<close>;
  \<^item> \<open>boundary_error s node offset\<close>: the exception a range raises for this boundary
    point, if any; \<open>out_of_order s start end\<close>: the two points lie in different trees or
    \<open>start\<close> is after \<open>end\<close>.
\<close>

record host =
  querySelector :: "dom_state \<Rightarrow> ref \<Rightarrow> string \<Rightarrow> string + ref option"
  querySelectorAll :: "dom_state \<Rightarrow> ref \<Rightarrow> string \<Rightarrow> string + ref list"
  native_matches :: "string \<Rightarrow> dom_state \<Rightarrow> ref \<Rightarrow> string \<Rightarrow> string + bool"
  native_closest :: "dom_state \<Rightarrow> ref \<Rightarrow> string \<Rightarrow> string + ref option"
  parseHTML :: "string \<Rightarrow> markup list"
  blank_node :: "int \<Rightarrow> node"
  valid_attribute_name :: "string \<Rightarrow> bool"
  valid_dataset_key :: "string \<Rightarrow> bool"
  set_textContent :: "dom_state \<Rightarrow> ref \<Rightarrow> string \<Rightarrow> dom_state"
  insertAdjacentHTML :: "dom_state \<Rightarrow> ref \<Rightarrow> string \<Rightarrow> string \<Rightarrow> string + dom_state"
  cloneNode :: "dom_state \<Rightarrow> ref \<Rightarrow> bool \<Rightarrow> ref \<times> dom_state"
  addEventListener :: "dom_state \<Rightarrow> ref \<Rightarrow> string \<Rightarrow> ref \<Rightarrow> bool \<Rightarrow> dom_state"
  removeEventListener :: "dom_state \<Rightarrow> ref \<Rightarrow> string \<Rightarrow> ref \<Rightarrow> bool \<Rightarrow> dom_state"
  dispatchEvent :: "dom_state \<Rightarrow> ref \<Rightarrow> event_obj \<Rightarrow> error + (bool \<times> dom_state)"
  createContextualFragment ::
    "(dom_state \<Rightarrow> range_obj \<Rightarrow> string \<Rightarrow> string + (ref \<times> dom_state)) option"
  constructs_event :: "string \<Rightarrow> string \<Rightarrow> config option \<Rightarrow> bool"
  createEvent_error :: "string \<Rightarrow> string option"
  has_init :: "string \<Rightarrow> bool"
  boundary_error :: "dom_state \<Rightarrow> ref \<Rightarrow> nat \<Rightarrow> string option"
  out_of_order :: "dom_state \<Rightarrow> ref \<times> nat \<Rightarrow> ref \<times> nat \<Rightarrow> bool"

section \<open>Node classification (lines 10-56)\<close>

definition nodeTypes :: "string list" where
  "nodeTypes =
    ['''', ''element'', ''attribute'', ''text'', ''cdata'', ''reference'', ''entity'',
     ''instruction'', ''comment'', ''document'', ''doctype'', ''fragment'', ''notation'']"

text \<open>
  \<^verbatim>\<open>array[key]\<close> for a key that is an integer or \<^verbatim>\<open>undefined\<close>: \<^verbatim>\<open>undefined\<close> outside
  \<open>0 .. length - 1\<close>.
\<close>

definition array_get :: "'a list \<Rightarrow> int option \<Rightarrow> 'a option" where
  "array_get xs key =
     (case key of
        None \<Rightarrow> None
      | Some i \<Rightarrow> if 0 \<le> i \<and> i < int (length xs) then Some (xs ! nat i) else None)"

text \<open>\<^verbatim>\<open>getType(node) { return (nodeTypes[node.nodeType] || '') }\<close>\<close>

definition getType :: "node \<Rightarrow> string" where
  "getType n =
     (case array_get nodeTypes (nodeType n) of
        None \<Rightarrow> ''''
      | Some name \<Rightarrow> if name = '''' then '''' else name)"

text \<open>
  \<^verbatim>\<open>isNode(value) { return (isObject(value) && value.nodeType >= 1 && value.nodeType <= 12) }\<close>;
  a comparison with \<^verbatim>\<open>undefined\<close> is false.
\<close>

definition nodeType_of :: "dom_state \<Rightarrow> js_value \<Rightarrow> int option" where
  "nodeType_of s v = (case v of JObj r \<Rightarrow> nodeType (nodes s r) | _ \<Rightarrow> None)"

definition isNode :: "dom_state \<Rightarrow> js_value \<Rightarrow> bool" where
  "isNode s v \<longleftrightarrow>
     isObject v \<and>
     (case nodeType_of s v of None \<Rightarrow> False | Some t \<Rightarrow> 1 \<le> t) \<and>
     (case nodeType_of s v of None \<Rightarrow> False | Some t \<Rightarrow> t \<le> 12)"

section \<open>Selectors: \<^verbatim>\<open>query\<close>, \<^verbatim>\<open>queryAll\<close> and \<^verbatim>\<open>resolveNode\<close> (lines 168-189, 930-932)\<close>

text \<open>
  An argument documented as \<^verbatim>\<open>string|Node\<close>: a string, or a node of the store.
\<close>

datatype node_arg = Sel string | Node ref

fun arg_truthy :: "node_arg option \<Rightarrow> bool" where
  "arg_truthy None = False"
| "arg_truthy (Some (Sel sel)) = (sel \<noteq> [])"
| "arg_truthy (Some (Node r)) = True"

text \<open>
  \<^verbatim>\<open>query(selector, parent) { parent = (parent ? resolveNode(parent) : document);
    return parent.querySelector(selector) }\<close> and
  \<^verbatim>\<open>resolveNode(node) { return (isString(node) ? dom.query(node) : node) }\<close>
  call each other; \<^verbatim>\<open>resolveNode\<close> calls \<^verbatim>\<open>query\<close> without a parent. A parent that
  resolves to \<^verbatim>\<open>null\<close> makes \<^verbatim>\<open>parent.querySelector\<close> a TypeError.
\<close>

function (sequential) query :: "host \<Rightarrow> dom_state \<Rightarrow> string \<Rightarrow> node_arg option \<Rightarrow> error + ref option"
  and resolveNode :: "host \<Rightarrow> dom_state \<Rightarrow> node_arg \<Rightarrow> error + ref option" where
  "query h s selector parent =
     (if arg_truthy parent
      then (case resolveNode h s (the parent) of
              Inl e \<Rightarrow> Inl e
            | Inr None \<Rightarrow> Inl TypeError
            | Inr (Some p) \<Rightarrow> from_host (querySelector h s p selector))
      else from_host (querySelector h s document selector))"
| "resolveNode h s (Sel sel) = query h s sel None"
| "resolveNode h s (Node r) = Inr (Some r)"
  by pat_completeness auto
termination
  by (relation "measure (\<lambda>x. case x of
                    Inl (h, s, sel, parent) \<Rightarrow> (if arg_truthy parent then 2 else 0)
                  | Inr (h, s, a) \<Rightarrow> 1)")
     auto


section \<open>\<^verbatim>\<open>matches\<close> (lines 679-692)\<close>

text \<open>
  The probe \<^verbatim>\<open>element.matches || element.matchesSelector || element.webkitMatchesSelector
  || element.mozMatchesSelector || element.msMatchesSelector || element.oMatchesSelector\<close>
  yields the first property that is present, in this order.
\<close>

definition matches_probes :: "string list" where
  "matches_probes =
     [''matches'', ''matchesSelector'', ''webkitMatchesSelector'', ''mozMatchesSelector'',
      ''msMatchesSelector'', ''oMatchesSelector'']"

fun first_method :: "node \<Rightarrow> string list \<Rightarrow> string option" where
  "first_method n [] = None"
| "first_method n (m # ms) = (if m \<in> set (methods n) then Some m else first_method n ms)"

definition matches :: "host \<Rightarrow> dom_state \<Rightarrow> ref \<Rightarrow> string \<Rightarrow> error + bool" where
  "matches h s element selector =
     (case first_method (nodes s element) matches_probes of
        None \<Rightarrow> Inl (Error ''Method matches() is not supported'')
      | Some m \<Rightarrow> from_host (native_matches h m s element selector))"

section \<open>Host tree primitives\<close>

text \<open>
  The tree primitives of the host that the claims depend on are written out on the store.
  A fresh object takes the reference at the allocation pointer.
\<close>

definition new_node :: "host \<Rightarrow> int \<Rightarrow> node" where
  "new_node h t =
     (blank_node h t)\<lparr>nodeType := Some t, parentNode := None, childNodes := [],
                     attributes := Map.empty\<rparr>"

definition alloc_node :: "dom_state \<Rightarrow> node \<Rightarrow> ref \<times> dom_state" where
  "alloc_node s n =
     (next_ref s, s\<lparr>nodes := (nodes s)(next_ref s := n), next_ref := Suc (next_ref s)\<rparr>)"

text \<open>\<^verbatim>\<open>document.createElement(tagName)\<close> and \<^verbatim>\<open>document.createDocumentFragment()\<close>\<close>

definition createElement :: "host \<Rightarrow> dom_state \<Rightarrow> string \<Rightarrow> ref \<times> dom_state" where
  "createElement h s tagName = alloc_node s (new_node h 1)"

definition createDocumentFragment :: "host \<Rightarrow> dom_state \<Rightarrow> ref \<times> dom_state" where
  "createDocumentFragment h s = alloc_node s (new_node h 11)"

text \<open>The nodes of parsed markup, allocated in document order under a parent.\<close>

fun alloc_markup :: "host \<Rightarrow> ref option \<Rightarrow> markup \<Rightarrow> dom_state \<Rightarrow> ref \<times> dom_state"
  and alloc_forest :: "host \<Rightarrow> ref option \<Rightarrow> markup list \<Rightarrow> dom_state \<Rightarrow> ref list \<times> dom_state" where
  "alloc_markup h parent (Markup t attrs cs) s =
     (let r = next_ref s;
          (crefs, s2) = alloc_forest h (Some r) cs (s\<lparr>next_ref := Suc r\<rparr>)
      in (r, s2\<lparr>nodes := (nodes s2)
                (r := (new_node h t)\<lparr>parentNode := parent, childNodes := crefs,
                                     attributes := map_of attrs\<rparr>)\<rparr>))"
| "alloc_forest h parent [] s = ([], s)"
| "alloc_forest h parent (m # ms) s =
     (let (r, s1) = alloc_markup h parent m s;
          (rs, s2) = alloc_forest h parent ms s1
      in (r # rs, s2))"

text \<open>
  \<^verbatim>\<open>element.innerHTML = html\<close>: the old children are detached, the parsed nodes become
  the children.
\<close>

definition set_innerHTML :: "host \<Rightarrow> dom_state \<Rightarrow> ref \<Rightarrow> string \<Rightarrow> dom_state" where
  "set_innerHTML h s el html =
     (let old = childNodes (nodes s el);
          s0 = s\<lparr>nodes := (\<lambda>r. if r \<in> set old then (nodes s r)\<lparr>parentNode := None\<rparr>
                                 else nodes s r)\<rparr>;
          (rs, s1) = alloc_forest h (Some el) (parseHTML h html) s0
      in s1\<lparr>nodes := (nodes s1)(el := (nodes s1 el)\<lparr>childNodes := rs\<rparr>)\<rparr>)"

text \<open>\<^verbatim>\<open>element.setAttribute(name, value)\<close>, \<^verbatim>\<open>element.className\<close> and its setter.\<close>

definition setAttribute :: "host \<Rightarrow> dom_state \<Rightarrow> ref \<Rightarrow> string \<Rightarrow> string \<Rightarrow> string + dom_state" where
  "setAttribute h s el name v =
     (if valid_attribute_name h name
      then Inr (s\<lparr>nodes := (nodes s)
                  (el := (nodes s el)\<lparr>attributes := (attributes (nodes s el))(name \<mapsto> v)\<rparr>)\<rparr>)
      else Inl ''InvalidCharacterError'')"

definition className :: "node \<Rightarrow> string" where
  "className n = (case attributes n ''class'' of None \<Rightarrow> [] | Some v \<Rightarrow> v)"

definition set_className :: "dom_state \<Rightarrow> ref \<Rightarrow> string \<Rightarrow> dom_state" where
  "set_className s el v =
     s\<lparr>nodes := (nodes s)
         (el := (nodes s el)\<lparr>attributes := (attributes (nodes s el))(''class'' \<mapsto> v)\<rparr>)\<rparr>"

text \<open>
  \<^verbatim>\<open>parent.removeChild(child)\<close>: NotFoundError unless \<open>child\<close> is a child of \<open>parent\<close>;
  otherwise the child leaves the parent's child list and has no parent.
\<close>

definition removeChild :: "dom_state \<Rightarrow> ref \<Rightarrow> ref \<Rightarrow> string + dom_state" where
  "removeChild s parent child =
     (if parentNode (nodes s child) \<noteq> Some parent then Inl ''NotFoundError''
      else
        let ns1 = (nodes s)(parent := (nodes s parent)
                     \<lparr>childNodes := removeAll child (childNodes (nodes s parent))\<rparr>);
            ns2 = ns1(child := (ns1 child)\<lparr>parentNode := None\<rparr>)
        in Inr (s\<lparr>nodes := ns2\<rparr>))"

text \<open>
  \<^verbatim>\<open>parent.appendChild(child)\<close> and \<^verbatim>\<open>parent.insertBefore(child, reference)\<close> move the
  child: it leaves the child list of its old parent first. (The host's own checks of the
  hierarchy, and its unpacking of a fragment that is inserted, are not modelled.)
\<close>

definition detach :: "dom_state \<Rightarrow> ref \<Rightarrow> dom_state" where
  "detach s child =
     (case parentNode (nodes s child) of
        None \<Rightarrow> s
      | Some old \<Rightarrow>
          s\<lparr>nodes := (nodes s)(old := (nodes s old)
                \<lparr>childNodes := removeAll child (childNodes (nodes s old))\<rparr>)\<rparr>)"

definition appendChild :: "dom_state \<Rightarrow> ref \<Rightarrow> ref \<Rightarrow> dom_state" where
  "appendChild s parent child =
     (let ns1 = nodes (detach s child);
          ns2 = ns1(parent := (ns1 parent)\<lparr>childNodes := childNodes (ns1 parent) @ [child]\<rparr>);
          ns3 = ns2(child := (ns2 child)\<lparr>parentNode := Some parent\<rparr>)
      in s\<lparr>nodes := ns3\<rparr>)"

definition insertBefore :: "dom_state \<Rightarrow> ref \<Rightarrow> ref \<Rightarrow> ref \<Rightarrow> string + dom_state" where
  "insertBefore s parent child reference =
     (if parentNode (nodes s reference) \<noteq> Some parent then Inl ''NotFoundError''
      else
        let ns1 = nodes (detach s child);
            cs = childNodes (ns1 parent);
            ns2 = ns1(parent := (ns1 parent)
                    \<lparr>childNodes := takeWhile (\<lambda>c. c \<noteq> reference) cs @ child #
                                   dropWhile (\<lambda>c. c \<noteq> reference) cs\<rparr>);
            ns3 = ns2(child := (ns2 child)\<lparr>parentNode := Some parent\<rparr>)
        in Inr (s\<lparr>nodes := ns3\<rparr>))"

text \<open>\<^verbatim>\<open>node.firstChild\<close> and \<^verbatim>\<open>node.nextSibling\<close>\<close>

definition firstChild :: "dom_state \<Rightarrow> ref \<Rightarrow> ref option" where
  "firstChild s n = (case childNodes (nodes s n) of [] \<Rightarrow> None | first # rest \<Rightarrow> Some first)"


section \<open>Tree mutation (lines 524-667)\<close>

text \<open>The second argument of the insertion functions: a markup string or a node.\<close>

datatype content = Html string | Child ref



definition before :: "host \<Rightarrow> dom_state \<Rightarrow> node_arg \<Rightarrow> content \<Rightarrow> error + (ref \<times> dom_state)" where
  "before h s target node =
     (case resolveNode h s target of
        Inl e \<Rightarrow> Inl e
      | Inr None \<Rightarrow> Inl TypeError
      | Inr (Some t) \<Rightarrow>
          (case node of
             Html markup \<Rightarrow>
               (case from_host (insertAdjacentHTML h s t ''beforebegin'' markup) of
                  Inl e \<Rightarrow> Inl e
                | Inr s' \<Rightarrow> Inr (t, s'))
           | Child c \<Rightarrow>
               (case parentNode (nodes s t) of
                  None \<Rightarrow> Inl TypeError
                | Some p \<Rightarrow>
                    (case from_host (insertBefore s p c t) of
                       Inl e \<Rightarrow> Inl e
                     | Inr s' \<Rightarrow> Inr (t, s')))))"


text \<open>
  \<^verbatim>\<open>remove(node) { node = resolveNode(node); const parent = node.parentNode;
    if (parent) { parent.removeChild(node) } return node }\<close>
\<close>

definition remove_node :: "host \<Rightarrow> dom_state \<Rightarrow> node_arg \<Rightarrow> error + (ref \<times> dom_state)" where
  "remove_node h s arg =
     (case resolveNode h s arg of
        Inl e \<Rightarrow> Inl e
      | Inr None \<Rightarrow> Inl TypeError
      | Inr (Some n) \<Rightarrow>
          (case parentNode (nodes s n) of
             None \<Rightarrow> Inr (n, s)
           | Some parent \<Rightarrow>
               (case from_host (removeChild s parent n) of
                  Inl e \<Rightarrow> Inl e
                | Inr s' \<Rightarrow> Inr (n, s'))))"



section \<open>\<^verbatim>\<open>setup\<close> (lines 318-330)\<close>

text \<open>
  \<^verbatim>\<open>eachIn(attributes, callback)\<close> visits the entries in key order; the callback assigns
  \<^verbatim>\<open>textContent\<close> for \<^verbatim>\<open>_text\<close>, \<^verbatim>\<open>innerHTML\<close> for \<^verbatim>\<open>_html\<close> and calls
  \<^verbatim>\<open>setAttribute\<close> otherwise. An element that resolved to \<^verbatim>\<open>null\<close> raises at the first
  entry.
\<close>

fun setup_each :: "host \<Rightarrow> ref option \<Rightarrow> (string \<times> js_value) list \<Rightarrow> dom_state \<Rightarrow> error + dom_state" where
  "setup_each h element [] s = Inr s"
| "setup_each h element ((name, v) # rest) s =
     (case element of
        None \<Rightarrow> Inl TypeError
      | Some el \<Rightarrow>
          (case (if name = ''_text'' then Inr (set_textContent h s el (to_content v))
                 else if name = ''_html'' then Inr (set_innerHTML h s el (to_content v))
                 else from_host (setAttribute h s el name (to_string v))) of
             Inl e \<Rightarrow> Inl e
           | Inr s' \<Rightarrow> setup_each h element rest s'))"

definition setup_element ::
  "host \<Rightarrow> dom_state \<Rightarrow> node_arg \<Rightarrow> (string \<times> js_value) list \<Rightarrow> error + (ref option \<times> dom_state)" where
  "setup_element h s element attrs =
     (case resolveNode h s element of
        Inl e \<Rightarrow> Inl e
      | Inr el \<Rightarrow>
          (case setup_each h el attrs s of
             Inl e \<Rightarrow> Inl e
           | Inr s' \<Rightarrow> Inr (el, s')))"

section \<open>Class helpers (lines 342-468, 941-943, 1028-1030)\<close>

text \<open>
  The \<^verbatim>\<open>classNames\<close> argument, documented as \<^verbatim>\<open>string|string[]\<close>, and
  \<^verbatim>\<open>resolveNames(names) { return (isString(names) ? names.split(' ') : names) }\<close>.
\<close>

datatype names_arg = Names string | NameList "string list"

fun resolveNames :: "names_arg \<Rightarrow> string list" where
  "resolveNames (Names s) = split_on [] s"
| "resolveNames (NameList names) = names"

text \<open>\<^verbatim>\<open>getClassNames(element) { return element.className.trim().split(/ +/) }\<close>\<close>

definition class_tokens :: "string \<Rightarrow> string list" where
  "class_tokens cn = split_runs [] (trim cn)"

definition getClassNames :: "node \<Rightarrow> string list" where
  "getClassNames el = class_tokens (className el)"

text \<open>
  The host's token list (\<^verbatim>\<open>element.classList\<close>): \<^verbatim>\<open>add\<close>, \<^verbatim>\<open>remove\<close> and \<^verbatim>\<open>toggle\<close>
  raise SyntaxError for the empty token and InvalidCharacterError for a token with ASCII
  white space; \<^verbatim>\<open>contains\<close> raises nothing.
\<close>

definition ascii_whitespace :: "char \<Rightarrow> bool" where
  "ascii_whitespace c \<longleftrightarrow> c \<in> set [CHR 0x09, CHR 0x0A, CHR 0x0C, CHR 0x0D, CHR 0x20]"

definition token_error :: "string \<Rightarrow> string option" where
  "token_error token =
     (if token = [] then Some ''SyntaxError''
      else if \<exists>c \<in> set token. ascii_whitespace c then Some ''InvalidCharacterError''
      else None)"

definition classList_add :: "string list \<Rightarrow> string \<Rightarrow> string + string list" where
  "classList_add tokens token =
     (case token_error token of
        Some e \<Rightarrow> Inl e
      | None \<Rightarrow> Inr (if token \<in> set tokens then tokens else tokens @ [token]))"

definition classList_remove :: "string list \<Rightarrow> string \<Rightarrow> string + string list" where
  "classList_remove tokens token =
     (case token_error token of
        Some e \<Rightarrow> Inl e
      | None \<Rightarrow> Inr (removeAll token tokens))"

definition classList_toggle :: "string list \<Rightarrow> string \<Rightarrow> string + string list" where
  "classList_toggle tokens token =
     (case token_error token of
        Some e \<Rightarrow> Inl e
      | None \<Rightarrow> Inr (if token \<in> set tokens then removeAll token tokens else tokens @ [token]))"

definition classList_contains :: "string list \<Rightarrow> string \<Rightarrow> bool" where
  "classList_contains tokens token \<longleftrightarrow> token \<in> set tokens"

text \<open>\<^verbatim>\<open>classNames.forEach((name) => classList.add(name))\<close>: stops at the first exception.\<close>

fun forEach_token ::
  "(string list \<Rightarrow> string \<Rightarrow> string + string list) \<Rightarrow> string list \<Rightarrow> string list
    \<Rightarrow> string + string list" where
  "forEach_token f [] tokens = Inr tokens"
| "forEach_token f (name # names) tokens =
     (case f tokens name of Inl e \<Rightarrow> Inl e | Inr tokens' \<Rightarrow> forEach_token f names tokens')"

definition set_classList :: "dom_state \<Rightarrow> ref \<Rightarrow> string list \<Rightarrow> dom_state" where
  "set_classList s el tokens =
     s\<lparr>nodes := (nodes s)(el := (nodes s el)\<lparr>classList := Some tokens\<rparr>)\<rparr>"

text \<open>
  The three \<^verbatim>\<open>forEach\<close> loops of the fallback paths, over the local array
  \<^verbatim>\<open>currentNames\<close> and (for \<^verbatim>\<open>addClass\<close> and \<^verbatim>\<open>removeClass\<close>) the flag \<^verbatim>\<open>update\<close>.
\<close>

fun addClass_each :: "string list \<Rightarrow> string list \<times> bool \<Rightarrow> string list \<times> bool" where
  "addClass_each [] st = st"
| "addClass_each (name # names) (currentNames, update) =
     (if indexOf currentNames name < 0
      then addClass_each names (currentNames @ [name], True)
      else addClass_each names (currentNames, update))"

fun removeClass_each :: "string list \<Rightarrow> string list \<times> bool \<Rightarrow> string list \<times> bool" where
  "removeClass_each [] st = st"
| "removeClass_each (name # names) (currentNames, update) =
     (let i = indexOf currentNames name
      in if 0 \<le> i
         then removeClass_each names (splice1 currentNames i, True)
         else removeClass_each names (currentNames, update))"

fun toggleClass_each :: "string list \<Rightarrow> string list \<Rightarrow> string list" where
  "toggleClass_each [] currentNames = currentNames"
| "toggleClass_each (name # names) currentNames =
     (let i = indexOf currentNames name
      in if i < 0
         then toggleClass_each names (currentNames @ [name])
         else toggleClass_each names (splice1 currentNames i))"

definition addClass :: "host \<Rightarrow> dom_state \<Rightarrow> node_arg \<Rightarrow> names_arg \<Rightarrow> error + (ref \<times> dom_state)" where
  "addClass h s element classNames =
     (case resolveNode h s element of
        Inl e \<Rightarrow> Inl e
      | Inr None \<Rightarrow> Inl TypeError
      | Inr (Some el) \<Rightarrow>
          (case classList (nodes s el) of
             Some tokens \<Rightarrow>
               (case from_host (forEach_token classList_add (resolveNames classNames) tokens) of
                  Inl e \<Rightarrow> Inl e
                | Inr tokens' \<Rightarrow> Inr (el, set_classList s el tokens'))
           | None \<Rightarrow>
               (let (currentNames, update) =
                      addClass_each (resolveNames classNames) (getClassNames (nodes s el), False)
                in if update then Inr (el, set_className s el (join currentNames))
                   else Inr (el, s))))"

definition removeClass :: "host \<Rightarrow> dom_state \<Rightarrow> node_arg \<Rightarrow> names_arg \<Rightarrow> error + (ref \<times> dom_state)" where
  "removeClass h s element classNames =
     (case resolveNode h s element of
        Inl e \<Rightarrow> Inl e
      | Inr None \<Rightarrow> Inl TypeError
      | Inr (Some el) \<Rightarrow>
          (case classList (nodes s el) of
             Some tokens \<Rightarrow>
               (case from_host (forEach_token classList_remove (resolveNames classNames) tokens) of
                  Inl e \<Rightarrow> Inl e
                | Inr tokens' \<Rightarrow> Inr (el, set_classList s el tokens'))
           | None \<Rightarrow>
               (let (currentNames, update) =
                      removeClass_each (resolveNames classNames) (getClassNames (nodes s el), False)
                in if update then Inr (el, set_className s el (join currentNames))
                   else Inr (el, s))))"

definition toggleClass :: "host \<Rightarrow> dom_state \<Rightarrow> node_arg \<Rightarrow> names_arg \<Rightarrow> error + (ref \<times> dom_state)" where
  "toggleClass h s element classNames =
     (case resolveNode h s element of
        Inl e \<Rightarrow> Inl e
      | Inr None \<Rightarrow> Inl TypeError
      | Inr (Some el) \<Rightarrow>
          (case classList (nodes s el) of
             Some tokens \<Rightarrow>
               (case from_host (forEach_token classList_toggle (resolveNames classNames) tokens) of
                  Inl e \<Rightarrow> Inl e
                | Inr tokens' \<Rightarrow> Inr (el, set_classList s el tokens'))
           | None \<Rightarrow>
               Inr (el, set_className s el
                      (join (toggleClass_each (resolveNames classNames)
                               (getClassNames (nodes s el)))))))"

definition hasClass :: "host \<Rightarrow> dom_state \<Rightarrow> node_arg \<Rightarrow> names_arg \<Rightarrow> error + bool" where
  "hasClass h s element classNames =
     (case resolveNode h s element of
        Inl e \<Rightarrow> Inl e
      | Inr None \<Rightarrow> Inl TypeError
      | Inr (Some el) \<Rightarrow>
          (case classList (nodes s el) of
             Some tokens \<Rightarrow>
               Inr (list_all (\<lambda>name. classList_contains tokens name) (resolveNames classNames))
           | None \<Rightarrow>
               Inr (list_all (\<lambda>name. 0 \<le> indexOf (getClassNames (nodes s el)) name)
                      (resolveNames classNames))))"

section \<open>Data helpers (lines 481-511, 1016-1018)\<close>

text \<open>
  \<^verbatim>\<open>toDataKey(key) { return ('data-' + key.replace(/[A-Z]/g, (char) => '-' + char.toLowerCase())) }\<close>
\<close>

definition toDataKey :: "string \<Rightarrow> string" where
  "toDataKey key =
     ''data-'' @ concat (map (\<lambda>char. if char \<in> set upper_case
                                      then [CHR ''-'', toLowerCase char] else [char]) key)"

text \<open>
  \<^verbatim>\<open>dataset[key] = '' + value\<close> on the host's string map (which refuses some keys), or
  \<^verbatim>\<open>element.setAttribute(toDataKey(key), '' + value)\<close>.
\<close>

definition setData :: "host \<Rightarrow> dom_state \<Rightarrow> node_arg \<Rightarrow> string \<Rightarrow> js_value \<Rightarrow> error + (ref \<times> dom_state)" where
  "setData h s element key v =
     (case resolveNode h s element of
        Inl e \<Rightarrow> Inl e
      | Inr None \<Rightarrow> Inl TypeError
      | Inr (Some el) \<Rightarrow>
          (case dataset (nodes s el) of
             Some d \<Rightarrow>
               (if valid_dataset_key h key
                then Inr (el, s\<lparr>nodes := (nodes s)
                            (el := (nodes s el)\<lparr>dataset := Some (d(key \<mapsto> to_string v))\<rparr>)\<rparr>)
                else Inl (DOMException ''SyntaxError''))
           | None \<Rightarrow>
               (case from_host (setAttribute h s el (toDataKey key) (to_string v)) of
                  Inl e \<Rightarrow> Inl e
                | Inr s' \<Rightarrow> Inr (el, s'))))"

text \<open>
  \<^verbatim>\<open>return (dataset ? dataset[key] : element.getAttribute(toDataKey(key)))\<close>: a missing
  entry of the map is \<^verbatim>\<open>undefined\<close>, a missing attribute \<^verbatim>\<open>null\<close>.
\<close>

definition getData :: "host \<Rightarrow> dom_state \<Rightarrow> node_arg \<Rightarrow> string \<Rightarrow> error + js_value" where
  "getData h s element key =
     (case resolveNode h s element of
        Inl e \<Rightarrow> Inl e
      | Inr None \<Rightarrow> Inl TypeError
      | Inr (Some el) \<Rightarrow>
          (case dataset (nodes s el) of
             Some d \<Rightarrow> Inr (case d key of None \<Rightarrow> JUndefined | Some x \<Rightarrow> JStr x)
           | None \<Rightarrow>
               Inr (case attributes (nodes s el) (toDataKey key) of
                      None \<Rightarrow> JNull
                    | Some x \<Rightarrow> JStr x)))"

section \<open>Traversal (lines 704-737)\<close>





section \<open>Events (lines 750-907, 1067-1087)\<close>








section \<open>\<^verbatim>\<open>element\<close> (lines 201-209)\<close>

definition element ::
  "host \<Rightarrow> dom_state \<Rightarrow> string \<Rightarrow> (string \<times> js_value) list option \<Rightarrow> error + (ref \<times> dom_state)" where
  "element h s tagName attrs =
     (let (newElement, s1) = createElement h s tagName
      in case attrs of
           None \<Rightarrow> Inr (newElement, s1)
         | Some a \<Rightarrow>
             (case setup_element h s1 (Node newElement) a of
                Inl e \<Rightarrow> Inl e
              | Inr (el, s2) \<Rightarrow> Inr (newElement, s2)))"

section \<open>Ranges (lines 291-304, 1038-1058)\<close>

text \<open>
  The host's range: \<^verbatim>\<open>document.createRange()\<close> returns a range whose two boundary points
  are both (document, 0). \<^verbatim>\<open>setStart\<close> and \<^verbatim>\<open>setEnd\<close> refuse a boundary point the host
  rejects, and move the other boundary point along when the two would be out of order.
  \<^verbatim>\<open>selectNode(node)\<close> refuses a node without parent and otherwise spans the node inside
  its parent.
\<close>

definition createRange :: range_obj where
  "createRange =
     \<lparr>startContainer = document, startOffset = 0, endContainer = document, endOffset = 0\<rparr>"


definition setStart :: "host \<Rightarrow> dom_state \<Rightarrow> range_obj \<Rightarrow> ref \<Rightarrow> nat \<Rightarrow> string + range_obj" where
  "setStart h s r n offset =
     (case boundary_error h s n offset of
        Some e \<Rightarrow> Inl e
      | None \<Rightarrow>
          Inr (if out_of_order h s (n, offset) (endContainer r, endOffset r)
               then r\<lparr>startContainer := n, startOffset := offset,
                      endContainer := n, endOffset := offset\<rparr>
               else r\<lparr>startContainer := n, startOffset := offset\<rparr>))"

definition setEnd :: "host \<Rightarrow> dom_state \<Rightarrow> range_obj \<Rightarrow> ref \<Rightarrow> nat \<Rightarrow> string + range_obj" where
  "setEnd h s r n offset =
     (case boundary_error h s n offset of
        Some e \<Rightarrow> Inl e
      | None \<Rightarrow>
          Inr (if out_of_order h s (startContainer r, startOffset r) (n, offset)
               then r\<lparr>startContainer := n, startOffset := offset,
                      endContainer := n, endOffset := offset\<rparr>
               else r\<lparr>endContainer := n, endOffset := offset\<rparr>))"

definition child_index :: "dom_state \<Rightarrow> ref \<Rightarrow> ref \<Rightarrow> nat" where
  "child_index s parent n = length (takeWhile (\<lambda>c. c \<noteq> n) (childNodes (nodes s parent)))"

definition selectNode :: "dom_state \<Rightarrow> range_obj \<Rightarrow> ref \<Rightarrow> string + range_obj" where
  "selectNode s r n =
     (case parentNode (nodes s n) of
        None \<Rightarrow> Inl ''InvalidNodeTypeError''
      | Some parent \<Rightarrow>
          Inr (r\<lparr>startContainer := parent, startOffset := child_index s parent n,
                 endContainer := parent, endOffset := Suc (child_index s parent n)\<rparr>))"

text \<open>
  \<^verbatim>\<open>range(startNode = null, startOffset = 0, endNode = null, endOffset = 0)\<close>; a missing
  node is \<open>None\<close>.
\<close>

definition dom_range ::
  "host \<Rightarrow> dom_state \<Rightarrow> ref option \<Rightarrow> nat \<Rightarrow> ref option \<Rightarrow> nat \<Rightarrow> error + range_obj" where
  "dom_range h s startNode startOff endNode endOff =
     (let rng = createRange
      in case startNode of
           None \<Rightarrow> Inr rng
         | Some sn \<Rightarrow>
             (case endNode of
                Some en \<Rightarrow>
                  (case from_host (setStart h s rng sn startOff) of
                     Inl e \<Rightarrow> Inl e
                   | Inr rng1 \<Rightarrow> from_host (setEnd h s rng1 en endOff))
              | None \<Rightarrow> from_host (selectNode s rng sn)))"

text \<open>
  \<^verbatim>\<open>getRange() { if (!docRange) { docRange = dom.range() } return docRange }\<close> and
  \<^verbatim>\<open>getNodeFactory() { if (!nodeFactory) { nodeFactory = dom.element('div') } return nodeFactory }\<close>
\<close>

definition getRange :: "host \<Rightarrow> dom_state \<Rightarrow> error + (range_obj \<times> dom_state)" where
  "getRange h s =
     (case docRange s of
        Some r \<Rightarrow> Inr (r, s)
      | None \<Rightarrow>
          (case dom_range h s None 0 None 0 of
             Inl e \<Rightarrow> Inl e
           | Inr r \<Rightarrow> Inr (r, s\<lparr>docRange := Some r\<rparr>)))"

definition getNodeFactory :: "host \<Rightarrow> dom_state \<Rightarrow> error + (ref \<times> dom_state)" where
  "getNodeFactory h s =
     (case nodeFactory s of
        Some f \<Rightarrow> Inr (f, s)
      | None \<Rightarrow>
          (case element h s ''div'' None of
             Inl e \<Rightarrow> Inl e
           | Inr (f, s') \<Rightarrow> Inr (f, s'\<lparr>nodeFactory := Some f\<rparr>)))"

section \<open>\<^verbatim>\<open>createFragment\<close> (lines 952-974)\<close>

text \<open>
  \<^verbatim>\<open>while (factory.firstChild) { fragment.appendChild(factory.firstChild) }\<close>. Nothing in
  the loop itself bounds it, so not returning is the value \<open>None\<close>.
\<close>

partial_function (option) drain :: "dom_state \<Rightarrow> ref \<Rightarrow> ref \<Rightarrow> dom_state option" where
  "drain s factory fragment =
     (case firstChild s factory of
        None \<Rightarrow> Some s
      | Some first \<Rightarrow> drain (appendChild s fragment first) factory fragment)"

definition createFragment :: "host \<Rightarrow> dom_state \<Rightarrow> string \<Rightarrow> (error + (ref \<times> dom_state)) option" where
  "createFragment h s html =
     (if html = [] then Some (Inr (createDocumentFragment h s))
      else
        case getRange h s of
          Inl e \<Rightarrow> Some (Inl e)
        | Inr (rng, s1) \<Rightarrow>
            (case createContextualFragment h of
               Some method \<Rightarrow> Some (from_host (method s1 rng html))
             | None \<Rightarrow>
                 (let (fragment, s2) = createDocumentFragment h s1
                  in case getNodeFactory h s2 of
                       Inl e \<Rightarrow> Some (Inl e)
                     | Inr (factory, s3) \<Rightarrow>
                         (case drain (set_innerHTML h s3 factory html) factory fragment of
                            None \<Rightarrow> None
                          | Some s5 \<Rightarrow> Some (Inr (fragment, s5))))))"

section \<open>Predicates and functions of the statements\<close>

text \<open>
  A class name that is one token: not empty, no white space in it.
\<close>

definition valid_class_name :: "string \<Rightarrow> bool" where
  "valid_class_name name \<longleftrightarrow> name \<noteq> [] \<and> (\<forall>c \<in> set name. \<not> js_whitespace c)"

text \<open>A class attribute whose only white space is the space character.\<close>

definition spaces_only :: "string \<Rightarrow> bool" where
  "spaces_only cn \<longleftrightarrow> (\<forall>c \<in> set cn. js_whitespace c \<longrightarrow> c = CHR '' '')"

text \<open>
  What \<open>class_tokens\<close> returns for such an attribute that names no class twice: the
  single empty string (nothing but spaces), or distinct class names.
\<close>

definition token_list :: "string list \<Rightarrow> bool" where
  "token_list ts \<longleftrightarrow> (ts = [[]] \<or> (\<forall>t \<in> set ts. valid_class_name t)) \<and> distinct ts"

text \<open>
  An element whose classes are kept as the fallback paths expect them: it has the native
  token list, or its class attribute separates the names by spaces only and names no class
  twice.
\<close>

definition well_formed_classes :: "node \<Rightarrow> bool" where
  "well_formed_classes n \<longleftrightarrow>
     (case classList n of
        Some tokens \<Rightarrow> True
      | None \<Rightarrow> spaces_only (className n) \<and> distinct (getClassNames n))"

text \<open>Membership of one class, as \<open>hasClass\<close> tests it on either path.\<close>

definition class_member :: "node \<Rightarrow> string \<Rightarrow> bool" where
  "class_member n name \<longleftrightarrow>
     (case classList n of
        Some tokens \<Rightarrow> name \<in> set tokens
      | None \<Rightarrow> name \<in> set (getClassNames n))"

text \<open>
  The key translation in the specification's words: each uppercase letter is prefixed
  with a hyphen and lowercased.
\<close>

fun kebab_case :: "string \<Rightarrow> string" where
  "kebab_case [] = []"
| "kebab_case (c # cs) =
     (if c \<in> set upper_case then CHR ''-'' # toLowerCase c # kebab_case cs
      else c # kebab_case cs)"

text \<open>
  A node of the store that is the node the parser described: its type, its attributes, and
  the parent it currently has.
\<close>

definition describes :: "dom_state \<Rightarrow> ref option \<Rightarrow> ref \<Rightarrow> markup \<Rightarrow> bool" where
  "describes s parent r m \<longleftrightarrow>
     nodeType (nodes s r) = Some (m_type m) \<and> parentNode (nodes s r) = parent \<and>
     attributes (nodes s r) = map_of (m_attrs m)"

text \<open>The scratch element, once created, is an allocated object.\<close>

definition scratch_allocated :: "dom_state \<Rightarrow> bool" where
  "scratch_allocated s \<longleftrightarrow> (case nodeFactory s of None \<Rightarrow> True | Some f \<Rightarrow> f < next_ref s)"










section \<open>Examples used to instantiate the theorems\<close>

definition plain_node :: node where
  "plain_node =
     \<lparr>nodeType = Some 1, parentNode = None, childNodes = [], attributes = Map.empty,
      classList = None, dataset = None, methods = []\<rparr>"

text \<open>
  A host without the newer capabilities: no \<^verbatim>\<open>classList\<close>, no \<^verbatim>\<open>dataset\<close>, no
  \<^verbatim>\<open>createContextualFragment\<close>, no event constructors. Its parser reads every character
  of the markup as one element.
\<close>

definition old_host :: host where
  "old_host =
     \<lparr>querySelector = (\<lambda>s p sel. if sel = ''#one'' then Inr (Some 1) else Inr None),
      querySelectorAll = (\<lambda>s p sel. Inr []),
      native_matches = (\<lambda>m s r sel. Inr (sel = m)),
      native_closest = (\<lambda>s r sel. Inr None),
      parseHTML = map (\<lambda>c. Markup 1 [(''id'', [c])] []),
      blank_node = (\<lambda>t. plain_node),
      valid_attribute_name = (\<lambda>name. True),
      valid_dataset_key = (\<lambda>key. True),
      set_textContent = (\<lambda>s r text. s),
      insertAdjacentHTML = (\<lambda>s r position html. Inr s),
      cloneNode = (\<lambda>s r deep. (r, s)),
      addEventListener = (\<lambda>s r name callback capture. s),
      removeEventListener = (\<lambda>s r name callback capture. s),
      dispatchEvent = (\<lambda>s r ev. Inr (True, s)),
      createContextualFragment = None,
      constructs_event = (\<lambda>type name config. False),
      createEvent_error = (\<lambda>type. None),
      has_init = (\<lambda>type. True),
      boundary_error = (\<lambda>s n offset. None),
      out_of_order = (\<lambda>s a b. False)\<rparr>"


text \<open>
  A small document: node 0 is the document, node 1 an element with the children 2 and 3;
  node 4 is a detached element with the class attribute \<open>''a  b''\<close>, node 5 a detached
  element with a native token list and string map.
\<close>

definition small_dom :: dom_state where
  "small_dom =
     \<lparr>nodes = (\<lambda>r. plain_node)
        (0 := plain_node\<lparr>nodeType := Some 9, childNodes := [1]\<rparr>,
         1 := plain_node\<lparr>parentNode := Some 0, childNodes := [2, 3],
                methods := [''webkitMatchesSelector'', ''oMatchesSelector'']\<rparr>,
         2 := plain_node\<lparr>parentNode := Some 1\<rparr>,
         3 := plain_node\<lparr>nodeType := Some 3, parentNode := Some 1\<rparr>,
         4 := plain_node\<lparr>attributes := [''class'' \<mapsto> ''a  b'']\<rparr>,
         5 := plain_node\<lparr>classList := Some [''a''], dataset := Some Map.empty\<rparr>),
      next_ref = 6, docRange = None, nodeFactory = None\<rparr>"

section \<open>Theorems\<close>

subsection \<open>Node classification\<close>

lemma getType_tag:
  "getType (n\<lparr>nodeType := Some t\<rparr>) =
     (if 0 \<le> t \<and> t < 13 then nodeTypes ! nat t else '''')"
proof -
  have "t < 0 \<or> t = 0 \<or> t = 1 \<or> t = 2 \<or> t = 3 \<or> t = 4 \<or> t = 5 \<or> t = 6 \<or> t = 7 \<or> t = 8
        \<or> t = 9 \<or> t = 10 \<or> t = 11 \<or> t = 12 \<or> 13 \<le> t"
    by arith
  then show ?thesis
    by (elim disjE) (simp_all add: getType_def array_get_def nodeTypes_def)
qed

text \<open>
  C3. For an object whose node-kind tag is the integer \<open>t\<close>, \<open>getType\<close> is the documented
  lowercase name for each of the tags 1 to 12 and the empty string for tag 0 and for every
  tag outside 0 to 12; and \<open>isNode\<close> holds of a value exactly when the value is an object
  (so not \<^verbatim>\<open>null\<close>, not a primitive) whose tag lies between 1 and 12.
\<close>

theorem getType_isNode_tags:
  "getType (n\<lparr>nodeType := Some 1\<rparr>) = ''element'' \<and>
   getType (n\<lparr>nodeType := Some 2\<rparr>) = ''attribute'' \<and>
   getType (n\<lparr>nodeType := Some 3\<rparr>) = ''text'' \<and>
   getType (n\<lparr>nodeType := Some 4\<rparr>) = ''cdata'' \<and>
   getType (n\<lparr>nodeType := Some 5\<rparr>) = ''reference'' \<and>
   getType (n\<lparr>nodeType := Some 6\<rparr>) = ''entity'' \<and>
   getType (n\<lparr>nodeType := Some 7\<rparr>) = ''instruction'' \<and>
   getType (n\<lparr>nodeType := Some 8\<rparr>) = ''comment'' \<and>
   getType (n\<lparr>nodeType := Some 9\<rparr>) = ''document'' \<and>
   getType (n\<lparr>nodeType := Some 10\<rparr>) = ''doctype'' \<and>
   getType (n\<lparr>nodeType := Some 11\<rparr>) = ''fragment'' \<and>
   getType (n\<lparr>nodeType := Some 12\<rparr>) = ''notation'' \<and>
   (\<forall>t. t \<le> 0 \<or> 12 < t \<longrightarrow> getType (n\<lparr>nodeType := Some t\<rparr>) = '''') \<and>
   (\<forall>s v. isNode s v \<longleftrightarrow>
      (\<exists>r t. v = JObj r \<and> nodeType (nodes s r) = Some t \<and> 1 \<le> t \<and> t \<le> 12))"
proof -
  have out: "\<forall>t. t \<le> 0 \<or> 12 < t \<longrightarrow> getType (n\<lparr>nodeType := Some t\<rparr>) = ''''"
    by (auto simp add: getType_tag nodeTypes_def)
  have node: "\<forall>s v. isNode s v \<longleftrightarrow>
      (\<exists>r t. v = JObj r \<and> nodeType (nodes s r) = Some t \<and> 1 \<le> t \<and> t \<le> 12)"
    by (auto simp add: isNode_def nodeType_of_def split: js_value.splits option.splits)
  show ?thesis
    using out node by (simp add: getType_tag nodeTypes_def)
qed

theorem getType_isNode_tags_witness:
  "getType (plain_node\<lparr>nodeType := Some 13\<rparr>) = '''' \<and>
   getType (plain_node\<lparr>nodeType := Some (- 1)\<rparr>) = '''' \<and>
   getType (plain_node\<lparr>nodeType := Some 9\<rparr>) = ''document'' \<and>
   isNode small_dom (JObj 0) \<and> \<not> isNode small_dom JNull \<and>
   \<not> isNode (small_dom\<lparr>nodes := (\<lambda>r. plain_node\<lparr>nodeType := None\<rparr>)\<rparr>) (JObj 0)"
  using getType_isNode_tags [of plain_node]
  by (simp add: small_dom_def plain_node_def)

subsection \<open>\<^verbatim>\<open>matches\<close>\<close>

lemma first_method_None:
  "first_method n ms = None \<longleftrightarrow> (\<forall>m \<in> set ms. m \<notin> set (methods n))"
  by (induction ms) auto

lemma first_method_Some:
  "first_method n ms = Some m \<longleftrightarrow>
     (\<exists>i < length ms. ms ! i = m \<and> m \<in> set (methods n) \<and>
        (\<forall>j < i. ms ! j \<notin> set (methods n)))"
proof (induction ms)
  case Nil
  then show ?case by simp
next
  case (Cons a ms)
  show ?case
  proof (cases "a \<in> set (methods n)")
    case True
    have "(\<exists>i < length (a # ms). (a # ms) ! i = m \<and> m \<in> set (methods n) \<and>
             (\<forall>j < i. (a # ms) ! j \<notin> set (methods n))) \<longleftrightarrow> a = m"
    proof
      assume "\<exists>i < length (a # ms). (a # ms) ! i = m \<and> m \<in> set (methods n) \<and>
             (\<forall>j < i. (a # ms) ! j \<notin> set (methods n))"
      then obtain i where i: "(a # ms) ! i = m" "\<forall>j < i. (a # ms) ! j \<notin> set (methods n)"
        by blast
      have "i = 0"
      proof (rule ccontr)
        assume "i \<noteq> 0"
        then have "(a # ms) ! 0 \<notin> set (methods n)" using i(2) by blast
        then show False using True by simp
      qed
      then show "a = m" using i(1) by simp
    next
      assume "a = m"
      then show "\<exists>i < length (a # ms). (a # ms) ! i = m \<and> m \<in> set (methods n) \<and>
             (\<forall>j < i. (a # ms) ! j \<notin> set (methods n))"
        using True by (intro exI [of _ 0]) simp
    qed
    then show ?thesis using True by auto
  next
    case False
    have "(\<exists>i < length (a # ms). (a # ms) ! i = m \<and> m \<in> set (methods n) \<and>
             (\<forall>j < i. (a # ms) ! j \<notin> set (methods n))) \<longleftrightarrow>
          (\<exists>i < length ms. ms ! i = m \<and> m \<in> set (methods n) \<and>
             (\<forall>j < i. ms ! j \<notin> set (methods n)))"
      (is "?L \<longleftrightarrow> ?R")
    proof
      assume ?L
      then obtain i where i: "i < length (a # ms)" "(a # ms) ! i = m" "m \<in> set (methods n)"
        "\<forall>j < i. (a # ms) ! j \<notin> set (methods n)"
        by blast
      have "i \<noteq> 0" using i(2,3) False by (cases i) auto
      then obtain k where k: "i = Suc k" by (cases i) auto
      have "\<forall>j < k. ms ! j \<notin> set (methods n)"
      proof (intro allI impI)
        fix j assume "j < k"
        then have "Suc j < i" using k by simp
        then have "(a # ms) ! Suc j \<notin> set (methods n)" using i(4) by blast
        then show "ms ! j \<notin> set (methods n)" by simp
      qed
      then show ?R using i k by (intro exI [of _ k]) simp
    next
      assume ?R
      then obtain k where k: "k < length ms" "ms ! k = m" "m \<in> set (methods n)"
        "\<forall>j < k. ms ! j \<notin> set (methods n)"
        by blast
      have "\<forall>j < Suc k. (a # ms) ! j \<notin> set (methods n)"
      proof (intro allI impI)
        fix j assume "j < Suc k"
        then show "(a # ms) ! j \<notin> set (methods n)"
          using k(4) False by (cases j) auto
      qed
      then show ?L using k by (intro exI [of _ "Suc k"]) simp
    qed
    then show ?thesis using False Cons.IH by simp
  qed
qed

text \<open>
  C8. \<open>matches\<close> probes the six matching capabilities in their fixed order and calls the
  first one the element has, returning what it returns; it throws its
  unsupported-operation error exactly when the element has none of them, and there is no
  other strategy: with no capability the result is that error.
\<close>

theorem matches_probe_order:
  "(matches h s el selector = Inl (Error ''Method matches() is not supported'')
      \<longleftrightarrow> (\<forall>m \<in> set matches_probes. m \<notin> set (methods (nodes s el)))) \<and>
   (\<forall>i < length matches_probes.
      matches_probes ! i \<in> set (methods (nodes s el)) \<and>
      (\<forall>j < i. matches_probes ! j \<notin> set (methods (nodes s el))) \<longrightarrow>
      matches h s el selector =
        from_host (native_matches h (matches_probes ! i) s el selector))"
proof (intro conjI allI impI)
  show "matches h s el selector = Inl (Error ''Method matches() is not supported'')
      \<longleftrightarrow> (\<forall>m \<in> set matches_probes. m \<notin> set (methods (nodes s el)))"
    by (auto simp add: matches_def from_host_def first_method_None [symmetric]
        split: option.splits sum.splits)
next
  fix i
  assume i: "i < length matches_probes"
    and "matches_probes ! i \<in> set (methods (nodes s el)) \<and>
      (\<forall>j < i. matches_probes ! j \<notin> set (methods (nodes s el)))"
  then have "first_method (nodes s el) matches_probes = Some (matches_probes ! i)"
    unfolding first_method_Some by blast
  then show "matches h s el selector =
        from_host (native_matches h (matches_probes ! i) s el selector)"
    by (simp add: matches_def)
qed

theorem matches_probe_order_witness:
  "matches old_host small_dom 1 ''webkitMatchesSelector'' = Inr True \<and>
   matches old_host small_dom 1 ''oMatchesSelector'' = Inr False \<and>
   matches old_host small_dom 2 ''p'' = Inl (Error ''Method matches() is not supported'')"
proof -
  have a: "(2::nat) < length matches_probes"
    by (simp add: matches_probes_def)
  have b: "matches_probes ! 2 \<in> set (methods (nodes small_dom 1)) \<and>
      (\<forall>j < 2. matches_probes ! j \<notin> set (methods (nodes small_dom 1)))"
    by (simp add: matches_probes_def small_dom_def plain_node_def less_Suc_eq numeral_2_eq_2)
  have c: "\<forall>m \<in> set matches_probes. m \<notin> set (methods (nodes small_dom 2))"
    by (simp add: small_dom_def plain_node_def)
  have "matches old_host small_dom 1 sel =
          from_host (native_matches old_host (matches_probes ! 2) small_dom 1 sel)" for sel
    using matches_probe_order [of old_host small_dom 1 sel] a b by blast
  moreover have "matches old_host small_dom 2 ''p'' = Inl (Error ''Method matches() is not supported'')"
    using matches_probe_order [of old_host small_dom 2 "''p''"] c by blast
  ultimately show ?thesis
    by (simp add: matches_probes_def old_host_def from_host_def)
qed

subsection \<open>\<^verbatim>\<open>remove\<close>\<close>

text \<open>
  C9. \<open>remove\<close> of a node that has no parent is a no-op: no error, the state is the state
  before. A node that has a parent is detached from it: afterwards it has no parent and is
  not among the parent's children, the parent's other children keep their order, and every
  other object is as before. In both cases the node itself is returned.
\<close>

theorem remove_node_detaches:
  "(parentNode (nodes s n) = None \<longrightarrow> remove_node h s (Node n) = Inr (n, s)) \<and>
   (\<forall>p. parentNode (nodes s n) = Some p \<longrightarrow>
      (\<exists>s'. remove_node h s (Node n) = Inr (n, s') \<and>
         parentNode (nodes s' n) = None \<and>
         n \<notin> set (childNodes (nodes s' p)) \<and>
         childNodes (nodes s' p) = filter (\<lambda>c. c \<noteq> n) (childNodes (nodes s p)) \<and>
         (\<forall>r. r \<noteq> n \<and> r \<noteq> p \<longrightarrow> nodes s' r = nodes s r) \<and>
         next_ref s' = next_ref s \<and> docRange s' = docRange s \<and>
         nodeFactory s' = nodeFactory s))"
proof (intro conjI allI impI)
  assume "parentNode (nodes s n) = None"
  then show "remove_node h s (Node n) = Inr (n, s)"
    by (simp add: remove_node_def)
next
  fix p
  assume p: "parentNode (nodes s n) = Some p"
  define ns1 where "ns1 = (nodes s)(p := (nodes s p)
                     \<lparr>childNodes := removeAll n (childNodes (nodes s p))\<rparr>)"
  define s' where "s' = s\<lparr>nodes := ns1(n := (ns1 n)\<lparr>parentNode := None\<rparr>)\<rparr>"
  have r: "remove_node h s (Node n) = Inr (n, s')"
    using p by (simp add: remove_node_def removeChild_def from_host_def Let_def s'_def ns1_def)
  have c: "childNodes (nodes s' p) = removeAll n (childNodes (nodes s p))"
    by (simp add: s'_def ns1_def)
  have "parentNode (nodes s' n) = None"
    by (simp add: s'_def)
  moreover have "n \<notin> set (childNodes (nodes s' p))"
    using c by simp
  moreover have "childNodes (nodes s' p) = filter (\<lambda>c. c \<noteq> n) (childNodes (nodes s p))"
    using c by (simp add: removeAll_filter_not_eq) (metis)
  moreover have "\<forall>r. r \<noteq> n \<and> r \<noteq> p \<longrightarrow> nodes s' r = nodes s r"
    by (simp add: s'_def ns1_def)
  moreover have "next_ref s' = next_ref s \<and> docRange s' = docRange s \<and>
         nodeFactory s' = nodeFactory s"
    by (simp add: s'_def)
  ultimately show "\<exists>s'. remove_node h s (Node n) = Inr (n, s') \<and>
         parentNode (nodes s' n) = None \<and>
         n \<notin> set (childNodes (nodes s' p)) \<and>
         childNodes (nodes s' p) = filter (\<lambda>c. c \<noteq> n) (childNodes (nodes s p)) \<and>
         (\<forall>r. r \<noteq> n \<and> r \<noteq> p \<longrightarrow> nodes s' r = nodes s r) \<and>
         next_ref s' = next_ref s \<and> docRange s' = docRange s \<and>
         nodeFactory s' = nodeFactory s"
    using r by blast
qed

theorem remove_node_detaches_witness:
  "remove_node old_host small_dom (Node 4) = Inr (4, small_dom) \<and>
   (\<exists>s'. remove_node old_host small_dom (Node 2) = Inr (2, s') \<and>
      parentNode (nodes s' 2) = None \<and> childNodes (nodes s' 1) = [3])"
proof -
  have a: "parentNode (nodes small_dom 4) = None"
    by (simp add: small_dom_def plain_node_def)
  have b: "parentNode (nodes small_dom 2) = Some 1"
    by (simp add: small_dom_def plain_node_def)
  have c: "childNodes (nodes small_dom 1) = [2, 3]"
    by (simp add: small_dom_def plain_node_def)
  from remove_node_detaches [of small_dom 4 old_host] a
  have "remove_node old_host small_dom (Node 4) = Inr (4, small_dom)"
    by blast
  moreover from remove_node_detaches [of small_dom 2 old_host] b
  obtain s' where "remove_node old_host small_dom (Node 2) = Inr (2, s')"
    "parentNode (nodes s' 2) = None"
    "childNodes (nodes s' 1) = filter (\<lambda>c. c \<noteq> 2) (childNodes (nodes small_dom 1))"
    by blast
  ultimately show ?thesis
    using c by auto
qed

subsection \<open>Strings, tokens and the class loops\<close>

lemma indexOf_neg: "indexOf xs x < 0 \<longleftrightarrow> x \<notin> set xs"
  by (induction xs) (auto simp add: Let_def)

lemma indexOf_nonneg: "0 \<le> indexOf xs x \<longleftrightarrow> x \<in> set xs"
  using indexOf_neg [of xs x] by auto

lemma indexOf_ge: "- 1 \<le> indexOf xs x"
  by (induction xs) (auto simp add: Let_def)

lemma splice1_indexOf: "x \<in> set xs \<Longrightarrow> splice1 xs (indexOf xs x) = remove1 x xs"
proof (induction xs)
  case Nil
  then show ?case by simp
next
  case (Cons y ys)
  show ?case
  proof (cases "y = x")
    case True
    then show ?thesis by (simp add: splice1_def)
  next
    case False
    then have in_ys: "x \<in> set ys" using Cons.prems by simp
    then have nn: "0 \<le> indexOf ys x" by (simp add: indexOf_nonneg)
    have "splice1 ys (indexOf ys x) = remove1 x ys" using Cons.IH in_ys by simp
    then show ?thesis
      using False nn by (simp add: splice1_def Let_def nat_add_distrib)
  qed
qed


lemma join_Cons: "ys \<noteq> [] \<Longrightarrow> join (x # ys) = x @ CHR '' '' # join ys"
  by (cases ys) simp_all

lemma join_append: "xs \<noteq> [] \<Longrightarrow> ys \<noteq> [] \<Longrightarrow> join (xs @ ys) = join xs @ CHR '' '' # join ys"
  by (induction xs rule: join.induct) (simp_all add: join_Cons)

lemma set_join: "set (join xs) \<subseteq> (\<Union>x \<in> set xs. set x) \<union> {CHR '' ''}"
  by (induction xs rule: join.induct) auto

lemma hd_join: "xs \<noteq> [] \<Longrightarrow> hd xs \<noteq> [] \<Longrightarrow> hd (join xs) = hd (hd xs)"
  by (induction xs rule: join.induct) simp_all

lemma join_nonempty_last: "xs \<noteq> [] \<Longrightarrow> last xs \<noteq> [] \<Longrightarrow> join xs \<noteq> []"
  by (induction xs rule: join.induct) simp_all

lemma last_join: "xs \<noteq> [] \<Longrightarrow> last xs \<noteq> [] \<Longrightarrow> last (join xs) = last (last xs)"
proof (induction xs rule: join.induct)
  case 1
  then show ?case by simp
next
  case (2 x)
  then show ?case by simp
next
  case (3 x y ys)
  have "join (y # ys) \<noteq> []"
    using "3.prems" join_nonempty_last [of "y # ys"] by simp
  then show ?case using 3 by simp
qed

lemma join_nonempty: "xs \<noteq> [] \<Longrightarrow> hd xs \<noteq> [] \<Longrightarrow> join xs \<noteq> []"
  by (induction xs rule: join.induct) simp_all


lemma split_runs_append_token:
  "CHR '' '' \<notin> set t \<Longrightarrow> split_runs cur (t @ s) = split_runs (cur @ t) s"
  by (induction t arbitrary: cur) auto

lemma split_runs_join:
  "xs \<noteq> [] \<Longrightarrow> \<forall>x \<in> set xs. x \<noteq> [] \<and> CHR '' '' \<notin> set x \<Longrightarrow> split_runs cur (join xs) = (cur @ hd xs) # tl xs"
proof (induction xs arbitrary: cur rule: join.induct)
  case 1
  then show ?case by simp
next
  case (2 x)
  then show ?case
    using split_runs_append_token [of x cur "[]"] by simp
next
  case (3 x y ys)
  have y: "y \<noteq> []" "CHR '' '' \<notin> set y" using "3.prems" by auto
  have "join (y # ys) \<noteq> []" using y by (simp add: join_nonempty)
  moreover have "hd (join (y # ys)) = hd y" using y by (simp add: hd_join)
  ultimately have dw: "dropWhile (\<lambda>d. d = CHR '' '') (join (y # ys)) = join (y # ys)"
    using y by (metis dropWhile_eq_self_iff hd_in_set)
  have "split_runs cur (join (x # y # ys)) = split_runs (cur @ x) (CHR '' '' # join (y # ys))"
    using "3.prems" split_runs_append_token [of x cur "CHR '' '' # join (y # ys)"] by simp
  also have "\<dots> = (cur @ x) # split_runs [] (join (y # ys))"
    using dw by simp
  also have "split_runs [] (join (y # ys)) = y # ys"
    using "3.IH" [of "[]"] "3.prems" by simp
  finally show ?case by simp
qed

lemma split_runs_join_id:
  "xs \<noteq> [] \<Longrightarrow> \<forall>x \<in> set xs. x \<noteq> [] \<and> CHR '' '' \<notin> set x \<Longrightarrow> split_runs [] (join xs) = xs"
  using split_runs_join [of xs "[]"] by simp


lemma trim_id:
  assumes "s \<noteq> []" "\<not> js_whitespace (hd s)" "\<not> js_whitespace (last s)"
  shows "trim s = s"
proof -
  have 1: "dropWhile js_whitespace s = s"
    using assms by (simp add: dropWhile_eq_self_iff)
  have 2: "dropWhile js_whitespace (rev s) = rev s"
    using assms by (simp add: dropWhile_eq_self_iff hd_rev)
  show ?thesis by (simp add: trim_def 1 2)
qed

lemma trim_Nil: "trim [] = []"
  by (simp add: trim_def)

lemma set_trim: "set (trim s) \<subseteq> set s"
  using set_dropWhileD [of _ js_whitespace s]
    set_dropWhileD [of _ js_whitespace "rev (dropWhile js_whitespace s)"]
  by (auto simp add: trim_def)

lemma trim_ends:
  assumes ne: "trim s \<noteq> []"
  shows "\<not> js_whitespace (hd (trim s)) \<and> \<not> js_whitespace (last (trim s))"
proof -
  define u where "u = dropWhile js_whitespace s"
  define v where "v = dropWhile js_whitespace (rev u)"
  have t: "trim s = rev v" by (simp add: trim_def u_def v_def)
  then have vne: "v \<noteq> []" using ne by simp
  then have "\<not> js_whitespace (hd v)" unfolding v_def by (rule hd_dropWhile)
  then have l: "\<not> js_whitespace (last (trim s))" using t by (simp add: last_rev)
  have "rev u \<noteq> []" using vne v_def by auto
  then have une: "u \<noteq> []" by simp
  then have hu: "\<not> js_whitespace (hd u)" unfolding u_def by (rule hd_dropWhile)
  obtain x where x: "x \<in> set (rev u)" "\<not> js_whitespace x"
    using vne unfolding v_def by auto
  have "last v = last (rev u)"
    unfolding v_def using x by (rule dropWhile_last)
  then have "hd (trim s) = hd u" using t by (simp add: hd_rev last_rev)
  then show ?thesis using hu l by simp
qed

lemma hd_split_runs: "hd (split_runs cur s) = cur @ takeWhile (\<lambda>c. c \<noteq> CHR '' '') s"
  by (induction cur s rule: split_runs.induct) simp_all

lemma split_runs_nonempty: "split_runs cur s \<noteq> []"
  by (induction cur s rule: split_runs.induct) simp_all

lemma set_split_runs: "t \<in> set (split_runs cur s) \<Longrightarrow> set t \<subseteq> set cur \<union> set s"
proof (induction cur s rule: split_runs.induct)
  case (1 cur)
  then show ?case by simp
next
  case (2 cur c cs)
  show ?case
  proof (cases "c = CHR '' ''")
    case True
    then have "t = cur \<or> t \<in> set (split_runs [] (dropWhile (\<lambda>d. d = CHR '' '') cs))"
      using "2.prems" by simp
    then show ?thesis
    proof
      assume "t = cur" then show ?thesis by auto
    next
      assume "t \<in> set (split_runs [] (dropWhile (\<lambda>d. d = CHR '' '') cs))"
      then have "set t \<subseteq> set [] \<union> set (dropWhile (\<lambda>d. d = CHR '' '') cs)"
        using "2.IH"(1) True by blast
      then show ?thesis using set_dropWhileD [of _ "\<lambda>d. d = CHR '' ''" cs] by auto
    qed
  next
    case False
    then have "t \<in> set (split_runs (cur @ [c]) cs)" using "2.prems" by simp
    then have "set t \<subseteq> set (cur @ [c]) \<union> set cs" using "2.IH"(2) False by blast
    then show ?thesis by auto
  qed
qed

lemma split_runs_tokens:
  "cur \<noteq> [] \<or> (s \<noteq> [] \<and> hd s \<noteq> CHR '' '') \<Longrightarrow> (s \<noteq> [] \<longrightarrow> last s \<noteq> CHR '' '')
   \<Longrightarrow> CHR '' '' \<notin> set cur
   \<Longrightarrow> \<forall>t \<in> set (split_runs cur s). t \<noteq> [] \<and> CHR '' '' \<notin> set t"
proof (induction cur s rule: split_runs.induct)
  case (1 cur)
  then show ?case by simp
next
  case (2 cur c cs)
  show ?case
  proof (cases "c = CHR '' ''")
    case True
    then have cur: "cur \<noteq> []" using "2.prems"(1) by auto
    have cs: "cs \<noteq> []" "last cs \<noteq> CHR '' ''" using "2.prems"(2) True by (auto split: if_splits)
    define d where "d = dropWhile (\<lambda>d. d = CHR '' '') cs"
    have "last cs \<in> set cs" using cs by simp
    then have dne: "d \<noteq> []" unfolding d_def using cs(2) by auto
    then have hd: "hd d \<noteq> CHR '' ''" unfolding d_def using hd_dropWhile [of "\<lambda>d. d = CHR '' ''" cs] by simp
    have "last d = last cs" unfolding d_def using \<open>last cs \<in> set cs\<close> cs(2) by (rule dropWhile_last)
    then have ld: "last d \<noteq> CHR '' ''" using cs by simp
    have "\<forall>t \<in> set (split_runs [] d). t \<noteq> [] \<and> CHR '' '' \<notin> set t"
      using "2.IH"(1) [OF True] dne hd ld unfolding d_def by simp
    then show ?thesis using True cur "2.prems"(3) by (simp add: d_def)
  next
    case False
    have "\<forall>t \<in> set (split_runs (cur @ [c]) cs). t \<noteq> [] \<and> CHR '' '' \<notin> set t"
      using "2.IH"(2) [OF False] "2.prems" False by (auto split: if_splits)
    then show ?thesis using False by simp
  qed
qed

lemma ws_space: "js_whitespace (CHR '' '')"
  by (simp add: js_whitespace_def)

lemma valid_no_space: "valid_class_name n \<Longrightarrow> n \<noteq> [] \<and> CHR '' '' \<notin> set n"
  using ws_space by (auto simp add: valid_class_name_def)

lemma valid_ends: "valid_class_name n \<Longrightarrow> \<not> js_whitespace (hd n) \<and> \<not> js_whitespace (last n)"
  by (simp add: valid_class_name_def)

lemma trim_space_Cons: "trim (CHR '' '' # s) = trim s"
  by (simp add: trim_def ws_space)

lemma getClassNames_shape:
  "class_tokens cn = [[]] \<or>
   ((\<forall>t \<in> set (class_tokens cn). t \<noteq> [] \<and> CHR '' '' \<notin> set t) \<and>
    \<not> js_whitespace (hd (hd (class_tokens cn))))"
proof (cases "trim cn = []")
  case True
  then show ?thesis by (simp add: class_tokens_def)
next
  case False
  then have e: "\<not> js_whitespace (hd (trim cn))" "\<not> js_whitespace (last (trim cn))"
    using trim_ends by blast+
  then have e': "hd (trim cn) \<noteq> CHR '' ''" "last (trim cn) \<noteq> CHR '' ''"
    using ws_space by auto
  have a: "\<forall>t \<in> set (split_runs [] (trim cn)). t \<noteq> [] \<and> CHR '' '' \<notin> set t"
    using split_runs_tokens [of "[]" "trim cn"] False e' by simp
  have "hd (split_runs [] (trim cn)) = takeWhile (\<lambda>c. c \<noteq> CHR '' '') (trim cn)"
    by (simp add: hd_split_runs)
  then have "hd (hd (split_runs [] (trim cn))) = hd (trim cn)"
    using False e'(1) by (cases "trim cn") simp_all
  then show ?thesis using a e(1) by (simp add: class_tokens_def)
qed

lemma getClassNames_nonempty: "class_tokens cn \<noteq> []"
  by (simp add: class_tokens_def split_runs_nonempty)

lemma getClassNames_chars:
  "t \<in> set (class_tokens cn) \<Longrightarrow> set t \<subseteq> set cn"
  using set_split_runs [of t "[]" "trim cn"] set_trim [of cn]
  by (auto simp add: class_tokens_def)

lemma getClassNames_spaces_only:
  assumes "spaces_only cn"
  shows "class_tokens cn = [[]] \<or> (\<forall>t \<in> set (class_tokens cn). valid_class_name t)"
proof (cases "class_tokens cn = [[]]")
  case True
  then show ?thesis by simp
next
  case False
  then have a: "\<forall>t \<in> set (class_tokens cn). t \<noteq> [] \<and> CHR '' '' \<notin> set t"
    using getClassNames_shape [of cn] by blast
  have "valid_class_name t" if t: "t \<in> set (class_tokens cn)" for t
  proof -
    have "\<not> js_whitespace c" if c: "c \<in> set t" for c
    proof
      assume w: "js_whitespace c"
      have "c \<in> set cn" using getClassNames_chars [OF t] c by blast
      then have "c = CHR '' ''" using assms w by (simp add: spaces_only_def)
      then show False using a t c by blast
    qed
    then show ?thesis using a t by (simp add: valid_class_name_def)
  qed
  then show ?thesis by blast
qed

lemma getClassNames_join_valid:
  assumes "\<forall>n \<in> set ns. valid_class_name n" "ns \<noteq> []"
  shows "class_tokens (join ns) = ns"
proof -
  have e: "\<forall>x \<in> set ns. x \<noteq> [] \<and> CHR '' '' \<notin> set x"
    using assms(1) valid_no_space by blast
  have h: "hd ns \<in> set ns" "last ns \<in> set ns" using assms(2) by simp_all
  then have hn: "hd ns \<noteq> []" "last ns \<noteq> []" using e by blast+
  have "join ns \<noteq> []" using assms(2) hn by (simp add: join_nonempty)
  moreover have "\<not> js_whitespace (hd (join ns))"
    using hd_join [OF assms(2) hn(1)] valid_ends assms(1) h(1) by simp
  moreover have "\<not> js_whitespace (last (join ns))"
    using last_join [OF assms(2) hn(2)] valid_ends assms(1) h(2) by simp
  ultimately have "trim (join ns) = join ns" by (rule trim_id)
  then show ?thesis
    using split_runs_join_id [OF assms(2) e] by (simp add: class_tokens_def)
qed

lemma getClassNames_join_clean:
  assumes "\<forall>n \<in> set ns. valid_class_name n"
  shows "class_tokens (join ns) = (if ns = [] then [[]] else ns)"
    and "class_tokens (join ([] # ns)) = (if ns = [] then [[]] else ns)"
proof -
  show 1: "class_tokens (join ns) = (if ns = [] then [[]] else ns)"
    using getClassNames_join_valid [OF assms]
    by (simp add: class_tokens_def trim_Nil)
  show "class_tokens (join ([] # ns)) = (if ns = [] then [[]] else ns)"
  proof (cases "ns = []")
    case True
    then show ?thesis by (simp add: class_tokens_def trim_Nil)
  next
    case False
    then have "join ([] # ns) = CHR '' '' # join ns" by (simp add: join_Cons)
    then have "class_tokens (join ([] # ns)) = class_tokens (join ns)"
      by (simp add: class_tokens_def trim_space_Cons)
    then show ?thesis using 1 by simp
  qed
qed

lemma getClassNames_join_append:
  assumes ns: "\<forall>n \<in> set ns. valid_class_name n" "ns \<noteq> []"
  shows "class_tokens (join (class_tokens cn @ ns)) =
           (if class_tokens cn = [[]] then ns else class_tokens cn @ ns)"
proof (cases "class_tokens cn = [[]]")
  case True
  then show ?thesis
    using getClassNames_join_clean(2) [OF ns(1)] ns(2) by simp
next
  case False
  define ts where "ts = class_tokens cn"
  have tne: "ts \<noteq> []" by (simp add: ts_def getClassNames_nonempty)
  have sh: "\<forall>t \<in> set ts. t \<noteq> [] \<and> CHR '' '' \<notin> set t" "\<not> js_whitespace (hd (hd ts))"
    using getClassNames_shape [of cn] False by (auto simp add: ts_def)
  have e: "\<forall>x \<in> set (ts @ ns). x \<noteq> [] \<and> CHR '' '' \<notin> set x"
    using sh(1) ns(1) valid_no_space by auto
  have ne: "ts @ ns \<noteq> []" using tne by simp
  have hdne: "hd (ts @ ns) \<noteq> []" using tne sh(1) by simp
  have lastne: "last (ts @ ns) \<noteq> []" using ns valid_no_space by simp
  have "join (ts @ ns) \<noteq> []" using ne hdne by (rule join_nonempty)
  moreover have "\<not> js_whitespace (hd (join (ts @ ns)))"
    using hd_join [OF ne hdne] tne sh(2) by simp
  moreover have "\<not> js_whitespace (last (join (ts @ ns)))"
    using last_join [OF ne lastne] ns valid_ends by simp
  ultimately have "trim (join (ts @ ns)) = join (ts @ ns)" by (rule trim_id)
  then have "class_tokens (join (ts @ ns)) = ts @ ns"
    using split_runs_join_id [OF ne e] by (simp add: class_tokens_def)
  then show ?thesis using False by (simp add: ts_def)
qed

lemma addClass_each_noop:
  "set names \<subseteq> set cur \<Longrightarrow> addClass_each names (cur, u) = (cur, u)"
  by (induction names) (auto simp add: indexOf_neg)

lemma addClass_each_update:
  "snd (addClass_each names (cur, u)) \<longleftrightarrow> u \<or> \<not> set names \<subseteq> set cur"
  by (induction names arbitrary: cur u) (auto simp add: indexOf_neg)

lemma addClass_each_result:
  "\<exists>new. fst (addClass_each names (cur, u)) = cur @ new \<and> set new = set names - set cur \<and>
         distinct new"
proof (induction names arbitrary: cur u)
  case Nil
  then show ?case by simp
next
  case (Cons name names)
  show ?case
  proof (cases "name \<in> set cur")
    case True
    obtain new where "fst (addClass_each names (cur, u)) = cur @ new"
      "set new = set names - set cur" "distinct new"
      using Cons.IH by blast
    then show ?thesis using True by (auto simp add: indexOf_neg)
  next
    case False
    obtain new where n: "fst (addClass_each names (cur @ [name], True)) = (cur @ [name]) @ new"
      "set new = set names - set (cur @ [name])" "distinct new"
      using Cons.IH by blast
    have "fst (addClass_each (name # names) (cur, u)) = cur @ (name # new)"
      using False n(1) by (simp add: indexOf_neg)
    moreover have "set (name # new) = set (name # names) - set cur"
      using False n(2) by auto
    moreover have "distinct (name # new)" using n(2,3) by auto
    ultimately show ?thesis by blast
  qed
qed

lemma removeClass_each_noop:
  "set names \<inter> set cur = {} \<Longrightarrow> removeClass_each names (cur, u) = (cur, u)"
  by (induction names) (auto simp add: Let_def indexOf_nonneg)

lemma removeClass_each_subset:
  "set (fst (removeClass_each names (cur, u))) \<subseteq> set cur"
proof (induction names arbitrary: cur u)
  case Nil
  then show ?case by simp
next
  case (Cons name names)
  show ?case
  proof (cases "name \<in> set cur")
    case True
    have "set (fst (removeClass_each names (remove1 name cur, True))) \<subseteq> set (remove1 name cur)"
      using Cons.IH by blast
    then show ?thesis
      using True set_remove1_subset [of name cur]
      by (auto simp add: Let_def indexOf_nonneg splice1_indexOf)
  next
    case False
    then show ?thesis using Cons.IH [of cur u] by (simp add: Let_def indexOf_nonneg)
  qed
qed

lemma removeClass_each_update:
  "snd (removeClass_each names (cur, u)) \<longleftrightarrow> u \<or> set names \<inter> set cur \<noteq> {}"
proof (induction names arbitrary: cur u)
  case Nil
  then show ?case by simp
next
  case (Cons name names)
  show ?case
  proof (cases "name \<in> set cur")
    case True
    have "snd (removeClass_each names (remove1 name cur, True))"
      using Cons.IH [of "remove1 name cur" True] by simp
    then show ?thesis using True by (auto simp add: Let_def indexOf_nonneg splice1_indexOf)
  next
    case False
    then show ?thesis using Cons.IH [of cur u] by (simp add: Let_def indexOf_nonneg)
  qed
qed

lemma removeClass_each_distinct:
  "distinct cur \<Longrightarrow> distinct (fst (removeClass_each names (cur, u))) \<and>
     set (fst (removeClass_each names (cur, u))) = set cur - set names"
proof (induction names arbitrary: cur u)
  case Nil
  then show ?case by simp
next
  case (Cons name names)
  show ?case
  proof (cases "name \<in> set cur")
    case True
    have "distinct (remove1 name cur)" using Cons.prems by simp
    then have "distinct (fst (removeClass_each names (remove1 name cur, True))) \<and>
        set (fst (removeClass_each names (remove1 name cur, True))) = set (remove1 name cur) - set names"
      using Cons.IH by blast
    then show ?thesis
      using True Cons.prems by (auto simp add: Let_def indexOf_nonneg splice1_indexOf)
  next
    case False
    then show ?thesis using Cons.IH [OF Cons.prems, of u] by (auto simp add: Let_def indexOf_nonneg)
  qed
qed

lemma toggleClass_each_distinct:
  "distinct cur \<Longrightarrow> distinct (toggleClass_each names cur) \<and>
     (\<forall>x. x \<in> set (toggleClass_each names cur) \<longleftrightarrow> (x \<in> set cur) \<noteq> odd (count_list names x))"
proof (induction names arbitrary: cur)
  case Nil
  then show ?case by simp
next
  case (Cons name names)
  show ?case
  proof (cases "name \<in> set cur")
    case True
    have d: "distinct (remove1 name cur)" using Cons.prems by simp
    have "toggleClass_each (name # names) cur = toggleClass_each names (remove1 name cur)"
      using True by (simp add: Let_def indexOf_neg splice1_indexOf)
    then show ?thesis
      using Cons.IH [OF d] True Cons.prems by auto
  next
    case False
    have d: "distinct (cur @ [name])" using Cons.prems False by simp
    have "toggleClass_each (name # names) cur = toggleClass_each names (cur @ [name])"
      using False by (simp add: Let_def indexOf_neg)
    then show ?thesis
      using Cons.IH [OF d] False by auto
  qed
qed

lemma valid_token_error: "valid_class_name n \<Longrightarrow> token_error n = None"
  by (auto simp add: valid_class_name_def token_error_def ascii_whitespace_def js_whitespace_def)

lemma forEach_add:
  "\<forall>n \<in> set names. valid_class_name n \<Longrightarrow>
   \<exists>ts'. forEach_token classList_add names ts = Inr ts' \<and> set ts' = set ts \<union> set names"
proof (induction names arbitrary: ts)
  case Nil
  then show ?case by simp
next
  case (Cons n names)
  define ts1 where "ts1 = (if n \<in> set ts then ts else ts @ [n])"
  have 1: "classList_add ts n = Inr ts1"
    using Cons.prems by (simp add: classList_add_def valid_token_error ts1_def)
  have v: "\<forall>n \<in> set names. valid_class_name n" using Cons.prems by simp
  obtain ts' where "forEach_token classList_add names ts1 = Inr ts'" "set ts' = set ts1 \<union> set names"
    using Cons.IH [OF v, of ts1] by blast
  then show ?case using 1 by (auto simp add: ts1_def split: if_splits)
qed

lemma forEach_remove:
  "\<forall>n \<in> set names. valid_class_name n \<Longrightarrow>
   \<exists>ts'. forEach_token classList_remove names ts = Inr ts' \<and> set ts' = set ts - set names"
proof (induction names arbitrary: ts)
  case Nil
  then show ?case by simp
next
  case (Cons n names)
  have 1: "classList_remove ts n = Inr (removeAll n ts)"
    using Cons.prems by (simp add: classList_remove_def valid_token_error)
  have v: "\<forall>n \<in> set names. valid_class_name n" using Cons.prems by simp
  obtain ts' where "forEach_token classList_remove names (removeAll n ts) = Inr ts'"
    "set ts' = set (removeAll n ts) - set names"
    using Cons.IH [OF v, of "removeAll n ts"] by blast
  then show ?case using 1 by auto
qed

lemma forEach_toggle:
  "\<forall>n \<in> set names. valid_class_name n \<Longrightarrow>
   \<exists>ts'. forEach_token classList_toggle names ts = Inr ts' \<and>
      (\<forall>x. x \<in> set ts' \<longleftrightarrow> (x \<in> set ts) \<noteq> odd (count_list names x))"
proof (induction names arbitrary: ts)
  case Nil
  then show ?case by simp
next
  case (Cons n names)
  define ts1 where "ts1 = (if n \<in> set ts then removeAll n ts else ts @ [n])"
  have 1: "classList_toggle ts n = Inr ts1"
    using Cons.prems by (simp add: classList_toggle_def valid_token_error ts1_def)
  have v: "\<forall>n \<in> set names. valid_class_name n" using Cons.prems by simp
  obtain ts' where "forEach_token classList_toggle names ts1 = Inr ts'"
    "\<forall>x. x \<in> set ts' \<longleftrightarrow> (x \<in> set ts1) \<noteq> odd (count_list names x)"
    using Cons.IH [OF v, of ts1] by blast
  then show ?case using 1 by (auto simp add: ts1_def split: if_splits)
qed

lemma indexOf_Cons_other:
  "x \<noteq> name \<Longrightarrow> indexOf (x # cur) name = (if indexOf cur name < 0 then - 1 else indexOf cur name + 1)"
  by (simp add: Let_def)

lemma splice1_Cons: "0 \<le> i \<Longrightarrow> splice1 (x # cur) (i + 1) = x # splice1 cur i"
  by (simp add: splice1_def nat_add_distrib)

lemma toggleClass_each_head:
  "x \<notin> set names \<Longrightarrow> toggleClass_each names (x # cur) = x # toggleClass_each names cur"
proof (induction names arbitrary: cur)
  case Nil
  then show ?case by simp
next
  case (Cons name names)
  have ne: "x \<noteq> name" and rest: "x \<notin> set names" using Cons.prems by auto
  show ?case
  proof (cases "indexOf cur name < 0")
    case True
    then show ?thesis
      using ne Cons.IH [OF rest, of "cur @ [name]"] by (simp add: Let_def)
  next
    case False
    then have nn: "0 \<le> indexOf cur name" by simp
    show ?thesis
      using ne False Cons.IH [OF rest, of "splice1 cur (indexOf cur name)"] splice1_Cons [OF nn, of x cur]
      by (simp add: Let_def)
  qed
qed

lemma toggleClass_each_set:
  "set (toggleClass_each names cur) \<subseteq> set cur \<union> set names"
proof (induction names arbitrary: cur)
  case Nil
  then show ?case by simp
next
  case (Cons name names)
  show ?case
  proof (cases "name \<in> set cur")
    case True
    have "toggleClass_each (name # names) cur = toggleClass_each names (remove1 name cur)"
      using True by (simp add: Let_def indexOf_neg splice1_indexOf)
    then show ?thesis
      using Cons.IH [of "remove1 name cur"] set_remove1_subset [of name cur] by auto
  next
    case False
    have "toggleClass_each (name # names) cur = toggleClass_each names (cur @ [name])"
      using False by (simp add: Let_def indexOf_neg)
    then show ?thesis
      using Cons.IH [of "cur @ [name]"] by auto
  qed
qed

lemma valid_not_empty: "valid_class_name x \<Longrightarrow> x \<noteq> []"
  by (simp add: valid_class_name_def)

lemma add_round:
  assumes v: "\<forall>n \<in> set names. valid_class_name n"
  shows "set names \<subseteq> set (if snd (addClass_each names (class_tokens cn, False))
                            then class_tokens (join (fst (addClass_each names (class_tokens cn, False))))
                            else class_tokens cn)"
proof -
  define T where "T = class_tokens cn"
  obtain new where new: "fst (addClass_each names (T, False)) = T @ new"
    "set new = set names - set T" "distinct new"
    using addClass_each_result by blast
  have upd: "snd (addClass_each names (T, False)) \<longleftrightarrow> \<not> set names \<subseteq> set T"
    by (simp add: addClass_each_update)
  show ?thesis
  proof (cases "set names \<subseteq> set T")
    case True
    then show ?thesis using upd by (simp add: T_def)
  next
    case False
    then have nne: "new \<noteq> []" using new(2) by auto
    have nv: "\<forall>n \<in> set new. valid_class_name n" using v new(2) by auto
    have g: "class_tokens (join (T @ new)) = (if T = [[]] then new else T @ new)"
      unfolding T_def using getClassNames_join_append [OF nv nne] .
    have "set names \<subseteq> set (if T = [[]] then new else T @ new)"
    proof (cases "T = [[]]")
      case True
      have "x \<in> set new" if "x \<in> set names" for x
      proof -
        have "x \<noteq> []" using v that valid_not_empty by blast
        then show ?thesis using new(2) that True by simp
      qed
      then show ?thesis using True by auto
    next
      case False
      then show ?thesis using new(2) by auto
    qed
    then show ?thesis using upd False g new(1) by (simp add: T_def)
  qed
qed

lemma remove_round:
  assumes v: "\<forall>n \<in> set names. valid_class_name n" and t: "token_list T"
  shows "set names \<inter> set (if snd (removeClass_each names (T, False))
                            then class_tokens (join (fst (removeClass_each names (T, False))))
                            else T) = {}"
proof -
  define R where "R = fst (removeClass_each names (T, False))"
  have d: "distinct T" using t by (simp add: token_list_def)
  have R: "distinct R" "set R = set T - set names"
    using removeClass_each_distinct [OF d, of names False] by (simp_all add: R_def)
  have upd: "snd (removeClass_each names (T, False)) \<longleftrightarrow> set names \<inter> set T \<noteq> {}"
    by (simp add: removeClass_each_update)
  show ?thesis
  proof (cases "set names \<inter> set T = {}")
    case True
    then show ?thesis using upd by simp
  next
    case False
    have "T \<noteq> [[]]"
    proof
      assume "T = [[]]"
      then have "[] \<in> set names" using False by auto
      then show False using v valid_not_empty by blast
    qed
    then have "\<forall>x \<in> set T. valid_class_name x" using t by (simp add: token_list_def)
    then have rv: "\<forall>x \<in> set R. valid_class_name x" using R(2) by simp
    have g: "class_tokens (join R) = (if R = [] then [[]] else R)"
      using getClassNames_join_clean(1) [OF rv] .
    have "set names \<inter> set (if R = [] then [[]] else R) = {}"
      using R(2) v valid_not_empty by auto
    then show ?thesis using upd False g by (simp add: R_def)
  qed
qed

lemma toggle_round:
  assumes v: "\<forall>n \<in> set names. valid_class_name n" and t: "token_list T"
  shows "token_list (class_tokens (join (toggleClass_each names T))) \<and>
         (\<forall>x. valid_class_name x \<longrightarrow>
            (x \<in> set (class_tokens (join (toggleClass_each names T)))
               \<longleftrightarrow> (x \<in> set T) \<noteq> odd (count_list names x)))"
proof -
  have d: "distinct T" using t by (simp add: token_list_def)
  define L where "L = toggleClass_each names T"
  have L: "distinct L" "\<forall>x. x \<in> set L \<longleftrightarrow> (x \<in> set T) \<noteq> odd (count_list names x)"
    using toggleClass_each_distinct [OF d, of names] by (simp_all add: L_def)
  show ?thesis
  proof (cases "T = [[]]")
    case True
    have e: "[] \<notin> set names" using v valid_not_empty by blast
    define M where "M = toggleClass_each names []"
    have LM: "L = [] # M" using True e toggleClass_each_head [of "[]" names "[]"] by (simp add: L_def M_def)
    have mv: "\<forall>x \<in> set M. valid_class_name x"
      using toggleClass_each_set [of names "[]"] v by (auto simp add: M_def)
    have dm: "distinct M" using L(1) LM by simp
    have g: "class_tokens (join L) = (if M = [] then [[]] else M)"
      using getClassNames_join_clean(2) [OF mv] LM by simp
    have "token_list (if M = [] then [[]] else M)"
      using mv dm by (simp add: token_list_def)
    moreover have "x \<in> set (if M = [] then [[]] else M) \<longleftrightarrow> (x \<in> set T) \<noteq> odd (count_list names x)"
      if "valid_class_name x" for x
    proof -
      have "x \<noteq> []" using that valid_not_empty by blast
      then have "x \<in> set (if M = [] then [[]] else M) \<longleftrightarrow> x \<in> set L"
        using LM by auto
      then show ?thesis using L(2) by simp
    qed
    ultimately show ?thesis using g by (simp add: L_def)
  next
    case False
    then have tv: "\<forall>x \<in> set T. valid_class_name x" using t by (simp add: token_list_def)
    have lv: "\<forall>x \<in> set L. valid_class_name x"
      using toggleClass_each_set [of names T] v tv by (auto simp add: L_def)
    have g: "class_tokens (join L) = (if L = [] then [[]] else L)"
      using getClassNames_join_clean(1) [OF lv] .
    have "token_list (if L = [] then [[]] else L)"
      using lv L(1) by (simp add: token_list_def)
    moreover have "x \<in> set (if L = [] then [[]] else L) \<longleftrightarrow> (x \<in> set T) \<noteq> odd (count_list names x)"
      if "valid_class_name x" for x
    proof -
      have "x \<noteq> []" using that valid_not_empty by blast
      then have "x \<in> set (if L = [] then [[]] else L) \<longleftrightarrow> x \<in> set L"
        by auto
      then show ?thesis using L(2) by simp
    qed
    ultimately show ?thesis using g by (simp add: L_def)
  qed
qed

lemma token_list_getClassNames:
  assumes "spaces_only cn" "distinct (class_tokens cn)"
  shows "token_list (class_tokens cn)"
  using getClassNames_spaces_only [OF assms(1)] assms(2) by (simp add: token_list_def)

subsection \<open>Class helpers on the store\<close>

lemma nodes_set_className:
  "nodes (set_className s el v) r =
     (if r = el then (nodes s el)\<lparr>attributes := (attributes (nodes s el))(''class'' \<mapsto> v)\<rparr>
      else nodes s r)"
  by (simp add: set_className_def)

lemma nodes_set_classList:
  "nodes (set_classList s el ts) r =
     (if r = el then (nodes s el)\<lparr>classList := Some ts\<rparr> else nodes s r)"
  by (simp add: set_classList_def)

lemma getClassNames_set_className:
  "getClassNames (nodes (set_className s el v) el) = class_tokens v"
  by (simp add: nodes_set_className getClassNames_def className_def)

lemma class_member_set_classList:
  "class_member (nodes (set_classList s el ts) el) name \<longleftrightarrow> name \<in> set ts"
  by (simp add: nodes_set_classList class_member_def)

lemma class_member_set_className:
  "classList (nodes s el) = None \<Longrightarrow>
   class_member (nodes (set_className s el v) el) name \<longleftrightarrow> name \<in> set (class_tokens v)"
  by (simp add: nodes_set_className class_member_def getClassNames_def className_def)

lemma class_member_fallback:
  "classList (nodes s el) = None \<Longrightarrow>
   class_member (nodes s el) name \<longleftrightarrow> name \<in> set (getClassNames (nodes s el))"
  by (simp add: class_member_def)

lemma hasClass_Node:
  "hasClass h s (Node el) cn =
     Inr (\<forall>name \<in> set (resolveNames cn). class_member (nodes s el) name)"
  by (simp add: hasClass_def class_member_def list_all_iff classList_contains_def
      indexOf_nonneg split: option.splits)

lemma hasClass_single:
  "hasClass h s (Node el) (NameList [name]) = Inr (class_member (nodes s el) name)"
  by (simp add: hasClass_Node)

lemma addClass_fallback:
  assumes "classList (nodes s el) = None"
  shows "addClass h s (Node el) cn =
     Inr (el, if snd (addClass_each (resolveNames cn) (getClassNames (nodes s el), False))
              then set_className s el
                     (join (fst (addClass_each (resolveNames cn) (getClassNames (nodes s el), False))))
              else s)"
  using assms by (simp add: addClass_def split: prod.splits)

lemma removeClass_fallback:
  assumes "classList (nodes s el) = None"
  shows "removeClass h s (Node el) cn =
     Inr (el, if snd (removeClass_each (resolveNames cn) (getClassNames (nodes s el), False))
              then set_className s el
                     (join (fst (removeClass_each (resolveNames cn) (getClassNames (nodes s el), False))))
              else s)"
  using assms by (simp add: removeClass_def split: prod.splits)

lemma toggleClass_fallback:
  assumes "classList (nodes s el) = None"
  shows "toggleClass h s (Node el) cn =
     Inr (el, set_className s el
                (join (toggleClass_each (resolveNames cn) (getClassNames (nodes s el)))))"
  using assms by (simp add: toggleClass_def)

lemma addClass_members:
  assumes v: "\<forall>name \<in> set (resolveNames cn). valid_class_name name"
  shows "\<exists>s1. addClass h s (Node el) cn = Inr (el, s1) \<and>
           (\<forall>name \<in> set (resolveNames cn). class_member (nodes s1 el) name)"
proof (cases "classList (nodes s el)")
  case None
  define r where "r = addClass_each (resolveNames cn) (getClassNames (nodes s el), False)"
  define s1 where "s1 = (if snd r then set_className s el (join (fst r)) else s)"
  have a: "addClass h s (Node el) cn = Inr (el, s1)"
    using addClass_fallback [OF None] by (simp add: s1_def r_def)
  have sub: "set (resolveNames cn) \<subseteq>
      set (if snd r then class_tokens (join (fst r)) else class_tokens (className (nodes s el)))"
    unfolding r_def getClassNames_def by (rule add_round [OF v])
  have "class_member (nodes s1 el) name" if "name \<in> set (resolveNames cn)" for name
  proof (cases "snd r")
    case True
    then show ?thesis
      using sub that None by (auto simp add: s1_def class_member_set_className)
  next
    case False
    then show ?thesis
      using sub that None by (auto simp add: s1_def class_member_fallback getClassNames_def)
  qed
  then show ?thesis using a by blast
next
  case (Some ts)
  obtain ts' where t: "forEach_token classList_add (resolveNames cn) ts = Inr ts'"
    "set ts' = set ts \<union> set (resolveNames cn)"
    using forEach_add [OF v] by blast
  have "addClass h s (Node el) cn = Inr (el, set_classList s el ts')"
    using Some t(1) by (simp add: addClass_def from_host_def)
  then show ?thesis using t(2) by (auto simp add: class_member_set_classList)
qed

lemma removeClass_members:
  assumes v: "\<forall>name \<in> set (resolveNames cn). valid_class_name name"
    and w: "well_formed_classes (nodes s el)"
  shows "\<exists>s2. removeClass h s (Node el) cn = Inr (el, s2) \<and>
           (\<forall>name \<in> set (resolveNames cn). \<not> class_member (nodes s2 el) name)"
proof (cases "classList (nodes s el)")
  case None
  define T where "T = getClassNames (nodes s el)"
  define r where "r = removeClass_each (resolveNames cn) (T, False)"
  define s2 where "s2 = (if snd r then set_className s el (join (fst r)) else s)"
  have t: "token_list T"
    using w None token_list_getClassNames [of "className (nodes s el)"]
    by (simp add: well_formed_classes_def T_def getClassNames_def)
  have a: "removeClass h s (Node el) cn = Inr (el, s2)"
    using removeClass_fallback [OF None] by (simp add: s2_def r_def T_def)
  have dis: "set (resolveNames cn) \<inter> set (if snd r then class_tokens (join (fst r)) else T) = {}"
    unfolding r_def by (rule remove_round [OF v t])
  have "\<not> class_member (nodes s2 el) name" if "name \<in> set (resolveNames cn)" for name
  proof (cases "snd r")
    case True
    then show ?thesis
      using dis that None by (auto simp add: s2_def class_member_set_className)
  next
    case False
    then show ?thesis
      using dis that None by (auto simp add: s2_def class_member_fallback T_def)
  qed
  then show ?thesis using a by blast
next
  case (Some ts)
  obtain ts' where t: "forEach_token classList_remove (resolveNames cn) ts = Inr ts'"
    "set ts' = set ts - set (resolveNames cn)"
    using forEach_remove [OF v] by blast
  have "removeClass h s (Node el) cn = Inr (el, set_classList s el ts')"
    using Some t(1) by (simp add: removeClass_def from_host_def)
  then show ?thesis using t(2) by (auto simp add: class_member_set_classList)
qed

lemma toggleClass_members:
  assumes v: "\<forall>name \<in> set (resolveNames cn). valid_class_name name"
    and w: "well_formed_classes (nodes s el)"
  shows "\<exists>s3. toggleClass h s (Node el) cn = Inr (el, s3) \<and>
           well_formed_classes (nodes s3 el) \<and>
           (\<forall>name. valid_class_name name \<longrightarrow>
              (class_member (nodes s3 el) name \<longleftrightarrow>
                 class_member (nodes s el) name \<noteq> odd (count_list (resolveNames cn) name)))"
proof (cases "classList (nodes s el)")
  case None
  define T where "T = getClassNames (nodes s el)"
  define L where "L = toggleClass_each (resolveNames cn) T"
  define s3 where "s3 = set_className s el (join L)"
  have t: "token_list T"
    using w None token_list_getClassNames [of "className (nodes s el)"]
    by (simp add: well_formed_classes_def T_def getClassNames_def)
  have a: "toggleClass h s (Node el) cn = Inr (el, s3)"
    using toggleClass_fallback [OF None] by (simp add: s3_def L_def T_def)
  have r: "token_list (class_tokens (join L))"
    "\<forall>x. valid_class_name x \<longrightarrow>
        (x \<in> set (class_tokens (join L)) \<longleftrightarrow> (x \<in> set T) \<noteq> odd (count_list (resolveNames cn) x))"
    using toggle_round [OF v t] by (simp_all add: L_def)
  have c3: "classList (nodes s3 el) = None"
    using None by (simp add: s3_def nodes_set_className)
  have g3: "getClassNames (nodes s3 el) = class_tokens (join L)"
    by (simp add: s3_def getClassNames_set_className)
  have d3: "distinct (class_tokens (join L))" using r(1) by (simp add: token_list_def)
  have sp: "spaces_only (className (nodes s3 el))"
  proof -
    have cls: "className (nodes s3 el) = join L"
      by (simp add: s3_def nodes_set_className className_def)
    have lv: "\<forall>x \<in> set L. x = [] \<or> valid_class_name x"
    proof
      fix x assume "x \<in> set L"
      then have "x \<in> set T \<or> x \<in> set (resolveNames cn)"
        using toggleClass_each_set [of "resolveNames cn" T] by (auto simp add: L_def)
      then show "x = [] \<or> valid_class_name x"
        using v t by (auto simp add: token_list_def)
    qed
    have "c = CHR '' ''" if c: "c \<in> set (join L)" "js_whitespace c" for c
    proof (rule ccontr)
      assume n: "c \<noteq> CHR '' ''"
      then obtain x where "x \<in> set L" "c \<in> set x"
        using set_join [of L] c(1) by auto
      then show False using lv c(2) by (auto simp add: valid_class_name_def)
    qed
    then show ?thesis using cls by (auto simp add: spaces_only_def)
  qed
  have w3: "well_formed_classes (nodes s3 el)"
    using c3 g3 d3 sp by (simp add: well_formed_classes_def)
  have "class_member (nodes s3 el) name \<longleftrightarrow>
          class_member (nodes s el) name \<noteq> odd (count_list (resolveNames cn) name)"
    if "valid_class_name name" for name
    using r(2) that None c3 g3 by (simp add: class_member_def T_def)
  then show ?thesis using a w3 by blast
next
  case (Some ts)
  obtain ts' where t: "forEach_token classList_toggle (resolveNames cn) ts = Inr ts'"
    "\<forall>x. x \<in> set ts' \<longleftrightarrow> (x \<in> set ts) \<noteq> odd (count_list (resolveNames cn) x)"
    using forEach_toggle [OF v] by blast
  have a: "toggleClass h s (Node el) cn = Inr (el, set_classList s el ts')"
    using Some t(1) by (simp add: toggleClass_def from_host_def)
  have "well_formed_classes (nodes (set_classList s el ts') el)"
    by (simp add: well_formed_classes_def nodes_set_classList)
  moreover have m: "class_member (nodes s el) name \<longleftrightarrow> name \<in> set ts" for name
    using Some by (simp add: class_member_def)
  have "\<forall>name. valid_class_name name \<longrightarrow>
      (class_member (nodes (set_classList s el ts') el) name \<longleftrightarrow>
         class_member (nodes s el) name \<noteq> odd (count_list (resolveNames cn) name))"
    using t(2) by (simp add: class_member_set_classList m)
  ultimately show ?thesis using a by blast
qed

text \<open>
  C4 (amended). Let every listed class name be one token (not empty, no white space).
  \<^item> After \<open>addClass\<close> with the names, \<open>hasClass\<close> with the same names is true, on every
    element.
  \<^item> If the list is not empty and the element keeps its classes well-formed (a native token
    list, or a class attribute with spaces as the only white space and no class twice),
    then after \<open>removeClass\<close> with the names, \<open>hasClass\<close> with the same names is false.
  \<^item> On such an element \<open>toggleClass\<close> flips the membership of each class name exactly
    when it occurs an odd number of times in the list (each occurrence flips it), and
    applying it twice restores the membership of every class name.
  \<^item> \<open>hasClass\<close> is the conjunction over the list (for any names).
\<close>

theorem class_helpers_roundtrip:
  assumes v: "\<forall>name \<in> set (resolveNames cn). valid_class_name name"
  shows
    "(\<exists>s1. addClass h s (Node el) cn = Inr (el, s1) \<and> hasClass h s1 (Node el) cn = Inr True) \<and>
     (resolveNames cn \<noteq> [] \<and> well_formed_classes (nodes s el) \<longrightarrow>
        (\<exists>s2. removeClass h s (Node el) cn = Inr (el, s2) \<and>
               hasClass h s2 (Node el) cn = Inr False)) \<and>
     (well_formed_classes (nodes s el) \<longrightarrow>
        (\<exists>s3 s4. toggleClass h s (Node el) cn = Inr (el, s3) \<and>
                  toggleClass h s3 (Node el) cn = Inr (el, s4) \<and>
           (\<forall>name. valid_class_name name \<longrightarrow>
              hasClass h s3 (Node el) (NameList [name]) =
                Inr ((hasClass h s (Node el) (NameList [name]) = Inr True)
                       \<noteq> odd (count_list (resolveNames cn) name)) \<and>
              hasClass h s4 (Node el) (NameList [name]) =
                hasClass h s (Node el) (NameList [name])))) \<and>
     (\<forall>s' names. hasClass h s' (Node el) names =
        Inr (\<forall>name \<in> set (resolveNames names).
               hasClass h s' (Node el) (NameList [name]) = Inr True))"
proof (intro conjI impI allI)
  show "\<exists>s1. addClass h s (Node el) cn = Inr (el, s1) \<and> hasClass h s1 (Node el) cn = Inr True"
    using addClass_members [OF v, of h s el] by (auto simp add: hasClass_Node)
next
  assume a: "resolveNames cn \<noteq> [] \<and> well_formed_classes (nodes s el)"
  then obtain s2 where s2: "removeClass h s (Node el) cn = Inr (el, s2)"
    "\<forall>name \<in> set (resolveNames cn). \<not> class_member (nodes s2 el) name"
    using removeClass_members [OF v, of s el h] by blast
  have "hd (resolveNames cn) \<in> set (resolveNames cn)" using a by simp
  then have "\<not> (\<forall>name \<in> set (resolveNames cn). class_member (nodes s2 el) name)"
    using s2(2) by blast
  then show "\<exists>s2. removeClass h s (Node el) cn = Inr (el, s2) \<and>
               hasClass h s2 (Node el) cn = Inr False"
    using s2(1) by (auto simp add: hasClass_Node)
next
  assume w: "well_formed_classes (nodes s el)"
  obtain s3 where s3: "toggleClass h s (Node el) cn = Inr (el, s3)"
    "well_formed_classes (nodes s3 el)"
    "\<forall>name. valid_class_name name \<longrightarrow>
       (class_member (nodes s3 el) name \<longleftrightarrow>
          class_member (nodes s el) name \<noteq> odd (count_list (resolveNames cn) name))"
    using toggleClass_members [OF v w, of h] by blast
  obtain s4 where s4: "toggleClass h s3 (Node el) cn = Inr (el, s4)"
    "\<forall>name. valid_class_name name \<longrightarrow>
       (class_member (nodes s4 el) name \<longleftrightarrow>
          class_member (nodes s3 el) name \<noteq> odd (count_list (resolveNames cn) name))"
    using toggleClass_members [OF v s3(2), of h] by blast
  have "\<forall>name. valid_class_name name \<longrightarrow>
          hasClass h s3 (Node el) (NameList [name]) =
            Inr ((hasClass h s (Node el) (NameList [name]) = Inr True)
                   \<noteq> odd (count_list (resolveNames cn) name)) \<and>
          hasClass h s4 (Node el) (NameList [name]) =
            hasClass h s (Node el) (NameList [name])"
    using s3(3) s4(2) by (auto simp add: hasClass_single)
  then show "\<exists>s3 s4. toggleClass h s (Node el) cn = Inr (el, s3) \<and>
                  toggleClass h s3 (Node el) cn = Inr (el, s4) \<and>
           (\<forall>name. valid_class_name name \<longrightarrow>
              hasClass h s3 (Node el) (NameList [name]) =
                Inr ((hasClass h s (Node el) (NameList [name]) = Inr True)
                       \<noteq> odd (count_list (resolveNames cn) name)) \<and>
              hasClass h s4 (Node el) (NameList [name]) =
                hasClass h s (Node el) (NameList [name]))"
    using s3(1) s4(1) by blast
next
  fix s' names
  show "hasClass h s' (Node el) names =
        Inr (\<forall>name \<in> set (resolveNames names).
               hasClass h s' (Node el) (NameList [name]) = Inr True)"
    by (simp add: hasClass_Node)
qed

lemma small_dom_4:
  "nodes small_dom 4 = plain_node\<lparr>attributes := [''class'' \<mapsto> ''a  b'']\<rparr>"
  by (simp add: small_dom_def)

lemma small_dom_4_names: "getClassNames (nodes small_dom 4) = [''a'', ''b'']"
  by (simp add: small_dom_4 plain_node_def getClassNames_def class_tokens_def className_def
      trim_def js_whitespace_def)

lemma small_dom_4_well_formed: "well_formed_classes (nodes small_dom 4)"
  using small_dom_4_names
  by (simp add: well_formed_classes_def small_dom_4 plain_node_def spaces_only_def className_def
      js_whitespace_def)

theorem class_helpers_roundtrip_witness:
  "(\<exists>s1. addClass old_host small_dom (Node 4) (Names ''b c'') = Inr (4, s1) \<and>
          hasClass old_host s1 (Node 4) (Names ''b c'') = Inr True) \<and>
   (\<exists>s2. removeClass old_host small_dom (Node 4) (Names ''b c'') = Inr (4, s2) \<and>
          hasClass old_host s2 (Node 4) (Names ''b c'') = Inr False) \<and>
   (\<exists>s3 s4. toggleClass old_host small_dom (Node 4) (Names ''b c'') = Inr (4, s3) \<and>
             toggleClass old_host s3 (Node 4) (Names ''b c'') = Inr (4, s4) \<and>
             hasClass old_host s3 (Node 4) (NameList [''c'']) = Inr True \<and>
             hasClass old_host s4 (Node 4) (NameList [''c'']) = Inr False)"
proof -
  have v: "\<forall>name \<in> set (resolveNames (Names ''b c'')). valid_class_name name"
    by (simp add: valid_class_name_def js_whitespace_def)
  have ne: "resolveNames (Names ''b c'') \<noteq> []"
    by simp
  have c: "valid_class_name ''c''"
    by (simp add: valid_class_name_def js_whitespace_def)
  have odd: "odd (count_list (resolveNames (Names ''b c'')) ''c'')"
    by simp
  have n: "classList (nodes small_dom 4) = None"
    by (simp add: small_dom_4 plain_node_def)
  have before: "hasClass old_host small_dom (Node 4) (NameList [''c'']) = Inr False"
    using small_dom_4_names by (simp add: hasClass_single class_member_def n)
  note t = class_helpers_roundtrip [OF v, of old_host small_dom 4]
  have 1: "\<exists>s1. addClass old_host small_dom (Node 4) (Names ''b c'') = Inr (4, s1) \<and>
          hasClass old_host s1 (Node 4) (Names ''b c'') = Inr True"
    using t by blast
  have 2: "\<exists>s2. removeClass old_host small_dom (Node 4) (Names ''b c'') = Inr (4, s2) \<and>
          hasClass old_host s2 (Node 4) (Names ''b c'') = Inr False"
    using t ne small_dom_4_well_formed by blast
  obtain s3 s4 where s: "toggleClass old_host small_dom (Node 4) (Names ''b c'') = Inr (4, s3)"
    "toggleClass old_host s3 (Node 4) (Names ''b c'') = Inr (4, s4)"
    "\<forall>name. valid_class_name name \<longrightarrow>
              hasClass old_host s3 (Node 4) (NameList [name]) =
                Inr ((hasClass old_host small_dom (Node 4) (NameList [name]) = Inr True)
                       \<noteq> odd (count_list (resolveNames (Names ''b c'')) name)) \<and>
              hasClass old_host s4 (Node 4) (NameList [name]) =
                hasClass old_host small_dom (Node 4) (NameList [name])"
    using t small_dom_4_well_formed by blast
  have "hasClass old_host s3 (Node 4) (NameList [''c'']) = Inr True"
    using s(3) c odd before by simp
  moreover have "hasClass old_host s4 (Node 4) (NameList [''c'']) = Inr False"
    using s(3) c before by simp
  ultimately show ?thesis using 1 2 s(1,2) by blast
qed

theorem class_helpers_roundtrip_counterexample:
  "removeClass old_host small_dom (Node 4) (NameList []) = Inr (4, small_dom) \<and>
   hasClass old_host small_dom (Node 4) (NameList []) = Inr True \<and>
   addClass old_host small_dom (Node 4) (Names []) =
     Inr (4, set_className small_dom 4 ''a b '') \<and>
   hasClass old_host (set_className small_dom 4 ''a b '') (Node 4) (Names []) = Inr False \<and>
   removeClass old_host (set_className small_dom 4 ''a a'') (Node 4) (Names ''a'') =
     Inr (4, set_className (set_className small_dom 4 ''a a'') 4 ''a'') \<and>
   hasClass old_host (set_className (set_className small_dom 4 ''a a'') 4 ''a'') (Node 4)
     (Names ''a'') = Inr True"
proof -
  have n: "classList (nodes small_dom 4) = None"
    by (simp add: small_dom_4 plain_node_def)
  have n': "classList (nodes (set_className t 4 v) 4) = classList (nodes t 4)" for t v
    by (simp add: nodes_set_className)
  have tok: "class_tokens ''a b '' = [''a'', ''b'']" "class_tokens ''a a'' = [''a'', ''a'']"
    "class_tokens ''a'' = [''a'']"
    by (simp_all add: class_tokens_def trim_def js_whitespace_def)
  have 1: "removeClass old_host small_dom (Node 4) (NameList []) = Inr (4, small_dom)"
    using removeClass_fallback [OF n, of old_host "NameList []"] by simp
  have 2: "hasClass old_host small_dom (Node 4) (NameList []) = Inr True"
    by (simp add: hasClass_Node)
  have 3: "addClass old_host small_dom (Node 4) (Names []) =
     Inr (4, set_className small_dom 4 ''a b '')"
    using addClass_fallback [OF n, of old_host "Names []"] by (simp add: small_dom_4_names)
  have 4: "hasClass old_host (set_className small_dom 4 ''a b '') (Node 4) (Names []) = Inr False"
    by (simp add: hasClass_Node class_member_def n' n getClassNames_set_className tok)
  have 5: "removeClass old_host (set_className small_dom 4 ''a a'') (Node 4) (Names ''a'') =
     Inr (4, set_className (set_className small_dom 4 ''a a'') 4 ''a'')"
    using removeClass_fallback [of "set_className small_dom 4 ''a a''" 4 old_host "Names ''a''"]
    by (simp add: n' n getClassNames_set_className tok splice1_def)
  have 6: "hasClass old_host (set_className (set_className small_dom 4 ''a a'') 4 ''a'') (Node 4)
     (Names ''a'') = Inr True"
    by (simp add: hasClass_Node class_member_def n' n getClassNames_set_className tok)
  show ?thesis using 1 2 3 4 5 6 by (intro conjI)
qed

text \<open>
  C7 (amended). On an element without the native class list, the three functions read the
  class attribute, trim it and split it at runs of spaces. \<open>addClass\<close> appends each listed
  name that is not yet present, once, and writes the attribute only if it appended one;
  when every name is present it writes nothing. \<open>removeClass\<close> removes listed names that
  are present and writes only if it removed one; when none is present it writes nothing.
  \<open>toggleClass\<close> always writes the rejoined list. A write changes the class attribute of
  that element and nothing else: every other attribute, the children, the parent and
  every other object stay as they are.
\<close>

theorem class_fallback_writes:
  assumes n: "classList (nodes s el) = None"
  shows
    "getClassNames (nodes s el) = split_runs [] (trim (className (nodes s el))) \<and>
     (set (resolveNames cn) \<subseteq> set (getClassNames (nodes s el)) \<longrightarrow>
        addClass h s (Node el) cn = Inr (el, s)) \<and>
     (\<not> set (resolveNames cn) \<subseteq> set (getClassNames (nodes s el)) \<longrightarrow>
        (\<exists>new. new \<noteq> [] \<and> distinct new \<and>
           set new = set (resolveNames cn) - set (getClassNames (nodes s el)) \<and>
           addClass h s (Node el) cn =
             Inr (el, set_className s el (join (getClassNames (nodes s el) @ new))))) \<and>
     (set (resolveNames cn) \<inter> set (getClassNames (nodes s el)) = {} \<longrightarrow>
        removeClass h s (Node el) cn = Inr (el, s)) \<and>
     (set (resolveNames cn) \<inter> set (getClassNames (nodes s el)) \<noteq> {} \<longrightarrow>
        (\<exists>rest. set rest \<subseteq> set (getClassNames (nodes s el)) \<and>
           (distinct (getClassNames (nodes s el)) \<longrightarrow>
              set rest = set (getClassNames (nodes s el)) - set (resolveNames cn)) \<and>
           removeClass h s (Node el) cn = Inr (el, set_className s el (join rest)))) \<and>
     toggleClass h s (Node el) cn =
       Inr (el, set_className s el
                  (join (toggleClass_each (resolveNames cn) (getClassNames (nodes s el))))) \<and>
     (\<forall>v. nodes (set_className s el v) =
             (nodes s)(el := (nodes s el)\<lparr>attributes := (attributes (nodes s el))(''class'' \<mapsto> v)\<rparr>) \<and>
           next_ref (set_className s el v) = next_ref s \<and>
           docRange (set_className s el v) = docRange s \<and>
           nodeFactory (set_className s el v) = nodeFactory s)"
proof -
  define names where "names = resolveNames cn"
  define cur where "cur = getClassNames (nodes s el)"
  have a: "getClassNames (nodes s el) = split_runs [] (trim (className (nodes s el)))"
    by (simp add: getClassNames_def class_tokens_def)
  have b: "addClass h s (Node el) cn = Inr (el, s)" if "set names \<subseteq> set cur"
    using addClass_fallback [OF n, of h cn] addClass_each_update [of names cur False] that
    by (simp add: names_def cur_def)
  have c: "\<exists>new. new \<noteq> [] \<and> distinct new \<and> set new = set names - set cur \<and>
           addClass h s (Node el) cn = Inr (el, set_className s el (join (cur @ new)))"
    if "\<not> set names \<subseteq> set cur"
  proof -
    obtain new where new: "fst (addClass_each names (cur, False)) = cur @ new"
      "set new = set names - set cur" "distinct new"
      using addClass_each_result by blast
    have "new \<noteq> []" using new(2) that by auto
    moreover have "addClass h s (Node el) cn = Inr (el, set_className s el (join (cur @ new)))"
      using addClass_fallback [OF n, of h cn] addClass_each_update [of names cur False] that new(1)
      by (simp add: names_def cur_def)
    ultimately show ?thesis using new(2,3) by blast
  qed
  have d: "removeClass h s (Node el) cn = Inr (el, s)" if "set names \<inter> set cur = {}"
    using removeClass_fallback [OF n, of h cn] removeClass_each_update [of names cur False] that
    by (simp add: names_def cur_def)
  have e: "\<exists>rest. set rest \<subseteq> set cur \<and> (distinct cur \<longrightarrow> set rest = set cur - set names) \<and>
           removeClass h s (Node el) cn = Inr (el, set_className s el (join rest))"
    if "set names \<inter> set cur \<noteq> {}"
  proof -
    define rest where "rest = fst (removeClass_each names (cur, False))"
    have "set rest \<subseteq> set cur"
      using removeClass_each_subset [of names cur False] by (simp add: rest_def)
    moreover have "distinct cur \<longrightarrow> set rest = set cur - set names"
      using removeClass_each_distinct [of cur names False] by (simp add: rest_def)
    moreover have "removeClass h s (Node el) cn = Inr (el, set_className s el (join rest))"
      using removeClass_fallback [OF n, of h cn] removeClass_each_update [of names cur False] that
      by (simp add: names_def cur_def rest_def)
    ultimately show ?thesis by blast
  qed
  have f: "toggleClass h s (Node el) cn =
       Inr (el, set_className s el (join (toggleClass_each names cur)))"
    using toggleClass_fallback [OF n] by (simp add: names_def cur_def)
  have g: "\<forall>v. nodes (set_className s el v) =
             (nodes s)(el := (nodes s el)\<lparr>attributes := (attributes (nodes s el))(''class'' \<mapsto> v)\<rparr>) \<and>
           next_ref (set_className s el v) = next_ref s \<and>
           docRange (set_className s el v) = docRange s \<and>
           nodeFactory (set_className s el v) = nodeFactory s"
    by (simp add: set_className_def)
  show ?thesis
    using a b c d e f g unfolding names_def cur_def by blast
qed

theorem class_fallback_writes_witness:
  "addClass old_host small_dom (Node 4) (Names ''b a'') = Inr (4, small_dom) \<and>
   removeClass old_host small_dom (Node 4) (Names ''c'') = Inr (4, small_dom) \<and>
   (\<exists>new. addClass old_host small_dom (Node 4) (Names ''c'') =
      Inr (4, set_className small_dom 4 (join ([''a'', ''b''] @ new))))"
proof -
  have n: "classList (nodes small_dom 4) = None"
    by (simp add: small_dom_4 plain_node_def)
  have 1: "set (resolveNames (Names ''b a'')) \<subseteq> set (getClassNames (nodes small_dom 4))"
    by (simp add: small_dom_4_names)
  have 2: "set (resolveNames (Names ''c'')) \<inter> set (getClassNames (nodes small_dom 4)) = {}"
    by (simp add: small_dom_4_names)
  have 3: "\<not> set (resolveNames (Names ''c'')) \<subseteq> set (getClassNames (nodes small_dom 4))"
    by (simp add: small_dom_4_names)
  have "addClass old_host small_dom (Node 4) (Names ''b a'') = Inr (4, small_dom)"
    using class_fallback_writes [OF n, of "Names ''b a''" old_host] 1 by blast
  moreover have "removeClass old_host small_dom (Node 4) (Names ''c'') = Inr (4, small_dom)"
    using class_fallback_writes [OF n, of "Names ''c''" old_host] 2 by blast
  moreover have "\<exists>new. addClass old_host small_dom (Node 4) (Names ''c'') =
      Inr (4, set_className small_dom 4 (join ([''a'', ''b''] @ new)))"
    using class_fallback_writes [OF n, of "Names ''c''" old_host] 3
    unfolding small_dom_4_names by blast
  ultimately show ?thesis by blast
qed

theorem toggleClass_always_writes_counterexample:
  "toggleClass old_host small_dom (Node 4) (NameList []) =
     Inr (4, set_className small_dom 4 ''a b'') \<and>
   className (nodes small_dom 4) = ''a  b'' \<and>
   className (nodes (set_className small_dom 4 ''a b'') 4) = ''a b'' \<and>
   getClassNames (nodes (set_className small_dom 4 ''a b'') 4) = getClassNames (nodes small_dom 4) \<and>
   class_tokens [CHR ''a'', CHR 0x09, CHR ''b''] = [[CHR ''a'', CHR 0x09, CHR ''b'']]"
proof -
  have n: "classList (nodes small_dom 4) = None"
    by (simp add: small_dom_4 plain_node_def)
  have 1: "toggleClass old_host small_dom (Node 4) (NameList []) =
     Inr (4, set_className small_dom 4 ''a b'')"
    using toggleClass_fallback [OF n, of old_host "NameList []"] by (simp add: small_dom_4_names)
  have 2: "className (nodes small_dom 4) = ''a  b''"
    by (simp add: small_dom_4 className_def)
  have 3: "className (nodes (set_className small_dom 4 ''a b'') 4) = ''a b''"
    by (simp add: nodes_set_className className_def)
  have "getClassNames (nodes (set_className small_dom 4 ''a b'') 4) = [''a'', ''b'']"
    by (simp add: getClassNames_set_className class_tokens_def trim_def js_whitespace_def)
  then have 4: "getClassNames (nodes (set_className small_dom 4 ''a b'') 4) =
      getClassNames (nodes small_dom 4)"
    by (simp add: small_dom_4_names)
  have 5: "class_tokens [CHR ''a'', CHR 0x09, CHR ''b''] = [[CHR ''a'', CHR 0x09, CHR ''b'']]"
    by (simp add: class_tokens_def trim_def js_whitespace_def)
  show ?thesis using 1 2 3 4 5 by (intro conjI)
qed

subsection \<open>Data keys\<close>

lemma toDataKey_kebab_case: "toDataKey key = ''data-'' @ kebab_case key"
  by (induction key) (simp_all add: toDataKey_def)

lemma toDataKey_example: "toDataKey ''fooBar'' = ''data-foo-bar''"
  by (simp add: toDataKey_def upper_case_def lower_case_def toLowerCase_def)

lemma cases_disjoint: "set lower_case \<inter> set upper_case = {}"
  by (simp add: upper_case_def lower_case_def)

lemma toLowerCase_not_upper: "toLowerCase c \<notin> set upper_case"
proof (cases "map_of (zip upper_case lower_case) c")
  case None
  have "length upper_case = length lower_case" by (simp add: upper_case_def lower_case_def)
  then have "c \<notin> set upper_case" using None map_of_zip_is_None by metis
  then show ?thesis using None by (simp add: toLowerCase_def)
next
  case (Some l)
  then have "(c, l) \<in> set (zip upper_case lower_case)" by (rule map_of_SomeD)
  then have "l \<in> set lower_case" by (rule set_zip_rightD)
  then have "l \<notin> set upper_case" using cases_disjoint by blast
  then show ?thesis using Some by (simp add: toLowerCase_def)
qed

lemma kebab_case_lower: "c \<in> set (kebab_case key) \<Longrightarrow> c \<notin> set upper_case"
proof (induction key)
  case Nil
  then show ?case by simp
next
  case (Cons a key)
  have dash: "CHR ''-'' \<notin> set upper_case" by (simp add: upper_case_def)
  show ?case
  proof (cases "a \<in> set upper_case")
    case True
    then have "c = CHR ''-'' \<or> c = toLowerCase a \<or> c \<in> set (kebab_case key)"
      using Cons.prems by auto
    then show ?thesis
      using Cons.IH toLowerCase_not_upper [of a] dash by blast
  next
    case False
    then have "c = a \<or> c \<in> set (kebab_case key)" using Cons.prems by auto
    then show ?thesis using Cons.IH False by blast
  qed
qed

lemma toDataKey_lower: "c \<in> set (toDataKey key) \<Longrightarrow> c \<notin> set upper_case"
proof -
  assume "c \<in> set (toDataKey key)"
  then have "c \<in> set ''data-'' \<or> c \<in> set (kebab_case key)" by (simp add: toDataKey_kebab_case)
  moreover have "set ''data-'' \<inter> set upper_case = {}" by (simp add: upper_case_def)
  ultimately show ?thesis using kebab_case_lower by blast
qed

lemma setData_Inr:
  assumes "setData h s (Node el) key v = Inr (el', s')"
  shows "el' = el \<and> getData h s' (Node el) key = Inr (JStr (to_string v))"
proof (cases "dataset (nodes s el)")
  case None
  then have "valid_attribute_name h (toDataKey key)"
    using assms by (auto simp add: setData_def setAttribute_def from_host_def split: if_splits)
  then show ?thesis
    using assms None
    by (auto simp add: setData_def setAttribute_def from_host_def getData_def)
next
  case (Some d)
  then have "valid_dataset_key h key"
    using assms by (auto simp add: setData_def split: if_splits)
  then show ?thesis
    using assms Some by (auto simp add: setData_def getData_def)
qed

text \<open>
  C5. Whenever \<open>setData\<close> returns, it returns the element, and \<open>getData\<close> with the same key
  then returns the string \<^verbatim>\<open>'' + value\<close> (for the value \<^verbatim>\<open>true\<close> the string
  \<^verbatim>\<open>"true"\<close>), on either path. Without the native dataset, \<open>setData\<close> writes exactly the
  attribute named \<open>toDataKey key\<close> (or raises what \<^verbatim>\<open>setAttribute\<close> raises for that name)
  and \<open>getData\<close> reads that attribute; the name is \<^verbatim>\<open>data-\<close> followed by the key with
  every uppercase letter replaced by a hyphen and its lowercase letter.
\<close>

theorem data_helpers_string:
  "(\<forall>el' s'. setData h s (Node el) key v = Inr (el', s') \<longrightarrow>
      el' = el \<and> getData h s' (Node el) key = Inr (JStr (to_string v))) \<and>
   to_string (JBool True) = ''true'' \<and>
   (dataset (nodes s el) = None \<longrightarrow>
      setData h s (Node el) key v =
        (if valid_attribute_name h (toDataKey key)
         then Inr (el, s\<lparr>nodes := (nodes s)
                 (el := (nodes s el)\<lparr>attributes :=
                    (attributes (nodes s el))(toDataKey key \<mapsto> to_string v)\<rparr>)\<rparr>)
         else Inl (DOMException ''InvalidCharacterError'')) \<and>
      getData h s (Node el) key =
        Inr (case attributes (nodes s el) (toDataKey key) of
               None \<Rightarrow> JNull
             | Some x \<Rightarrow> JStr x)) \<and>
   toDataKey key = ''data-'' @ kebab_case key \<and>
   toDataKey ''fooBar'' = ''data-foo-bar''"
proof (intro conjI allI impI)
  fix el' s'
  assume a: "setData h s (Node el) key v = Inr (el', s')"
  show "el' = el" using setData_Inr [OF a] by simp
  show "getData h s' (Node el) key = Inr (JStr (to_string v))" using setData_Inr [OF a] by simp
next
  show "to_string (JBool True) = ''true''" by simp
next
  assume "dataset (nodes s el) = None"
  then show "setData h s (Node el) key v =
        (if valid_attribute_name h (toDataKey key)
         then Inr (el, s\<lparr>nodes := (nodes s)
                 (el := (nodes s el)\<lparr>attributes :=
                    (attributes (nodes s el))(toDataKey key \<mapsto> to_string v)\<rparr>)\<rparr>)
         else Inl (DOMException ''InvalidCharacterError''))"
    by (simp add: setData_def setAttribute_def from_host_def)
next
  assume "dataset (nodes s el) = None"
  then show "getData h s (Node el) key =
        Inr (case attributes (nodes s el) (toDataKey key) of
               None \<Rightarrow> JNull
             | Some x \<Rightarrow> JStr x)"
    by (simp add: getData_def)
next
  show "toDataKey key = ''data-'' @ kebab_case key" by (rule toDataKey_kebab_case)
next
  show "toDataKey ''fooBar'' = ''data-foo-bar''" by (rule toDataKey_example)
qed

theorem data_helpers_string_witness:
  "(\<exists>s'. setData old_host small_dom (Node 4) ''fooBar'' (JBool True) = Inr (4, s') \<and>
      getData old_host s' (Node 4) ''fooBar'' = Inr (JStr ''true'') \<and>
      attributes (nodes s' 4) ''data-foo-bar'' = Some ''true'') \<and>
   (\<exists>s'. setData old_host small_dom (Node 5) ''fooBar'' (JBool True) = Inr (5, s') \<and>
      getData old_host s' (Node 5) ''fooBar'' = Inr (JStr ''true''))"
proof -
  note t4 = data_helpers_string [of old_host small_dom 4 "''fooBar''" "JBool True"]
  note t5 = data_helpers_string [of old_host small_dom 5 "''fooBar''" "JBool True"]
  have d4: "dataset (nodes small_dom 4) = None"
    by (simp add: small_dom_4 plain_node_def)
  have ok: "valid_attribute_name old_host (toDataKey ''fooBar'')"
    by (simp add: old_host_def)
  define s4 where "s4 = small_dom\<lparr>nodes := (nodes small_dom)
                 (4 := (nodes small_dom 4)\<lparr>attributes :=
                    (attributes (nodes small_dom 4))(toDataKey ''fooBar'' \<mapsto> to_string (JBool True))\<rparr>)\<rparr>"
  have set4: "setData old_host small_dom (Node 4) ''fooBar'' (JBool True) = Inr (4, s4)"
    using t4 [THEN conjunct2, THEN conjunct2, THEN conjunct1, rule_format, OF d4] ok
    unfolding s4_def by simp
  have get4: "getData old_host s4 (Node 4) ''fooBar'' = Inr (JStr ''true'')"
    using t4 [THEN conjunct1, rule_format, OF set4] by simp
  have key: "toDataKey ''fooBar'' = ''data-foo-bar''"
    using t4 [THEN conjunct2, THEN conjunct2, THEN conjunct2, THEN conjunct2] .
  have attr4: "attributes (nodes s4 4) ''data-foo-bar'' = Some ''true''"
    unfolding s4_def key by simp
  have "\<exists>s'. setData old_host small_dom (Node 5) ''fooBar'' (JBool True) = Inr (5, s')"
    by (simp add: setData_def small_dom_def old_host_def)
  then obtain s5 where set5: "setData old_host small_dom (Node 5) ''fooBar'' (JBool True) = Inr (5, s5)"
    by blast
  have "getData old_host s5 (Node 5) ''fooBar'' = Inr (JStr ''true'')"
    using t5 [THEN conjunct1, rule_format, OF set5] by simp
  then show ?thesis using set4 get4 attr4 set5 by blast
qed

subsection \<open>\<^verbatim>\<open>createFragment\<close>\<close>

lemma alloc_markup_forest:
  "alloc_markup h p m s = (r, s') \<Longrightarrow>
     r = next_ref s \<and> next_ref s < next_ref s' \<and>
     (\<forall>q < next_ref s. nodes s' q = nodes s q) \<and>
     docRange s' = docRange s \<and> nodeFactory s' = nodeFactory s \<and>
     describes s' p r m"
  "alloc_forest h p ms s = (rs, s') \<Longrightarrow>
     next_ref s \<le> next_ref s' \<and>
     (\<forall>q < next_ref s. nodes s' q = nodes s q) \<and>
     docRange s' = docRange s \<and> nodeFactory s' = nodeFactory s \<and>
     (\<forall>r \<in> set rs. next_ref s \<le> r \<and> r < next_ref s') \<and> distinct rs \<and>
     list_all2 (describes s' p) rs ms"
proof (induction h p m s and h p ms s arbitrary: r s' and rs s'
    rule: alloc_markup_alloc_forest.induct)
  case (1 h parent t attrs cs s)
  obtain crefs s2 where
    f: "alloc_forest h (Some (next_ref s)) cs (s\<lparr>next_ref := Suc (next_ref s)\<rparr>) = (crefs, s2)"
    by (cases "alloc_forest h (Some (next_ref s)) cs (s\<lparr>next_ref := Suc (next_ref s)\<rparr>)")
  have ih: "Suc (next_ref s) \<le> next_ref s2"
    "\<forall>q < Suc (next_ref s). nodes s2 q = nodes s q"
    "docRange s2 = docRange s" "nodeFactory s2 = nodeFactory s"
    using "1.IH" [OF refl f] by auto
  have r: "r = next_ref s"
    and s': "s' = s2\<lparr>nodes := (nodes s2)
                (r := (new_node h t)\<lparr>parentNode := parent, childNodes := crefs,
                                     attributes := map_of attrs\<rparr>)\<rparr>"
    using "1.prems" f by (auto simp add: Let_def)
  have "describes s' parent r (Markup t attrs cs)"
    by (simp add: s' describes_def new_node_def)
  moreover have "\<forall>q < next_ref s. nodes s' q = nodes s q"
    using ih(2) by (simp add: s' r)
  ultimately show ?case
    using r ih(1,3,4) by (simp add: s')
next
  case (2 h parent s)
  then show ?case by simp
next
  case (3 h parent m ms s)
  obtain r1 s1 where a: "alloc_markup h parent m s = (r1, s1)"
    by (cases "alloc_markup h parent m s")
  obtain rs2 s2 where b: "alloc_forest h parent ms s1 = (rs2, s2)"
    by (cases "alloc_forest h parent ms s1")
  have rs: "rs = r1 # rs2" and s': "s' = s2"
    using "3.prems" a b by simp_all
  have ih1: "r1 = next_ref s" "next_ref s < next_ref s1"
    "\<forall>q < next_ref s. nodes s1 q = nodes s q"
    "docRange s1 = docRange s" "nodeFactory s1 = nodeFactory s"
    "describes s1 parent r1 m"
    using "3.IH"(1) [OF a] by auto
  have ih2: "next_ref s1 \<le> next_ref s2"
    "\<forall>q < next_ref s1. nodes s2 q = nodes s1 q"
    "docRange s2 = docRange s1" "nodeFactory s2 = nodeFactory s1"
    "\<forall>r \<in> set rs2. next_ref s1 \<le> r \<and> r < next_ref s2" "distinct rs2"
    "list_all2 (describes s2 parent) rs2 ms"
    using "3.IH"(2) [OF a [symmetric] refl b] by auto
  have "nodes s2 r1 = nodes s1 r1" using ih1(1,2) ih2(2) by simp
  then have d: "describes s2 parent r1 m" using ih1(6) by (simp add: describes_def)
  have n: "r1 \<notin> set rs2" using ih1(1,2) ih2(5) by auto
  have "\<forall>q < next_ref s. nodes s2 q = nodes s q"
    using ih1(2,3) ih2(2) by simp
  moreover have "\<forall>r \<in> set (r1 # rs2). next_ref s \<le> r \<and> r < next_ref s2"
    using ih1(1,2) ih2(1,5) by auto
  ultimately show ?case
    using ih1 ih2 d n by (simp add: rs s')
qed

lemma appendChild_first:
  assumes "factory \<noteq> fragment" "c \<noteq> factory" "c \<noteq> fragment"
    and "parentNode (nodes s c) = Some factory"
  shows "nodes (appendChild s fragment c) =
           (nodes s)
             (factory := (nodes s factory)
                \<lparr>childNodes := removeAll c (childNodes (nodes s factory))\<rparr>,
              fragment := (nodes s fragment)
                \<lparr>childNodes := childNodes (nodes s fragment) @ [c]\<rparr>,
              c := (nodes s c)\<lparr>parentNode := Some fragment\<rparr>)"
    and "next_ref (appendChild s fragment c) = next_ref s"
    and "docRange (appendChild s fragment c) = docRange s"
    and "nodeFactory (appendChild s fragment c) = nodeFactory s"
  using assms by (auto simp add: appendChild_def detach_def Let_def fun_upd_def)

lemma drain_children:
  assumes "factory \<noteq> fragment"
    and "childNodes (nodes s factory) = cs" "distinct cs"
    and "\<forall>c \<in> set cs. parentNode (nodes s c) = Some factory \<and> c \<noteq> factory \<and> c \<noteq> fragment"
  shows "\<exists>s'. drain s factory fragment = Some s' \<and>
           nodes s' factory = (nodes s factory)\<lparr>childNodes := []\<rparr> \<and>
           nodes s' fragment = (nodes s fragment)
              \<lparr>childNodes := childNodes (nodes s fragment) @ cs\<rparr> \<and>
           (\<forall>c \<in> set cs. nodes s' c = (nodes s c)\<lparr>parentNode := Some fragment\<rparr>) \<and>
           (\<forall>q. q \<notin> set cs \<and> q \<noteq> factory \<and> q \<noteq> fragment \<longrightarrow> nodes s' q = nodes s q) \<and>
           next_ref s' = next_ref s \<and> docRange s' = docRange s \<and>
           nodeFactory s' = nodeFactory s"
  using assms
proof (induction cs arbitrary: s)
  case Nil
  then have "drain s factory fragment = Some s"
    by (simp add: drain.simps firstChild_def)
  moreover have "(nodes s factory)\<lparr>childNodes := []\<rparr> = nodes s factory"
    using Nil.prems(2) by simp
  ultimately show ?case by simp
next
  case (Cons c cs)
  define s1 where "s1 = appendChild s fragment c"
  have c: "parentNode (nodes s c) = Some factory" "c \<noteq> factory" "c \<noteq> fragment" "c \<notin> set cs"
    using Cons.prems by auto
  have step: "drain s factory fragment = drain s1 factory fragment"
    using Cons.prems(2) by (subst drain.simps) (simp add: firstChild_def s1_def)
  note ap = appendChild_first [OF Cons.prems(1) c(2,3,1)]
  have n1: "nodes s1 =
           (nodes s)
             (factory := (nodes s factory)\<lparr>childNodes := cs\<rparr>,
              fragment := (nodes s fragment)
                \<lparr>childNodes := childNodes (nodes s fragment) @ [c]\<rparr>,
              c := (nodes s c)\<lparr>parentNode := Some fragment\<rparr>)"
    using ap(1) Cons.prems(2) c(4) by (simp add: s1_def)
  have f1: "nodes s1 factory = (nodes s factory)\<lparr>childNodes := cs\<rparr>"
    using n1 Cons.prems(1) c(2) by simp
  have g1: "nodes s1 fragment = (nodes s fragment)
                \<lparr>childNodes := childNodes (nodes s fragment) @ [c]\<rparr>"
    using n1 c(3) by simp
  have c1: "nodes s1 c = (nodes s c)\<lparr>parentNode := Some fragment\<rparr>"
    using n1 by simp
  have o1: "nodes s1 q = nodes s q" if "q \<noteq> factory" "q \<noteq> fragment" "q \<noteq> c" for q
    using n1 that by simp
  have p1: "childNodes (nodes s1 factory) = cs" using f1 by simp
  have p2: "distinct cs" using Cons.prems(3) by simp
  have p3: "\<forall>d \<in> set cs. parentNode (nodes s1 d) = Some factory \<and> d \<noteq> factory \<and> d \<noteq> fragment"
  proof
    fix d assume d: "d \<in> set cs"
    then have "d \<noteq> c" using c(4) by auto
    moreover have "parentNode (nodes s d) = Some factory \<and> d \<noteq> factory \<and> d \<noteq> fragment"
      using Cons.prems(4) d by simp
    ultimately show "parentNode (nodes s1 d) = Some factory \<and> d \<noteq> factory \<and> d \<noteq> fragment"
      using o1 [of d] by simp
  qed
  obtain s' where s': "drain s1 factory fragment = Some s'"
    "nodes s' factory = (nodes s1 factory)\<lparr>childNodes := []\<rparr>"
    "nodes s' fragment = (nodes s1 fragment)\<lparr>childNodes := childNodes (nodes s1 fragment) @ cs\<rparr>"
    "\<forall>d \<in> set cs. nodes s' d = (nodes s1 d)\<lparr>parentNode := Some fragment\<rparr>"
    "\<forall>q. q \<notin> set cs \<and> q \<noteq> factory \<and> q \<noteq> fragment \<longrightarrow> nodes s' q = nodes s1 q"
    "next_ref s' = next_ref s1" "docRange s' = docRange s1" "nodeFactory s' = nodeFactory s1"
    using Cons.IH [OF Cons.prems(1) p1 p2 p3] by blast
  have a: "nodes s' factory = (nodes s factory)\<lparr>childNodes := []\<rparr>"
    using s'(2) f1 by simp
  have b: "nodes s' fragment = (nodes s fragment)
              \<lparr>childNodes := childNodes (nodes s fragment) @ c # cs\<rparr>"
    using s'(3) g1 by simp
  have cc: "\<forall>d \<in> set (c # cs). nodes s' d = (nodes s d)\<lparr>parentNode := Some fragment\<rparr>"
  proof
    fix d assume d: "d \<in> set (c # cs)"
    show "nodes s' d = (nodes s d)\<lparr>parentNode := Some fragment\<rparr>"
    proof (cases "d = c")
      case True
      then have "nodes s' d = nodes s1 c" using s'(5) c(2,3,4) by simp
      then show ?thesis using c1 True by simp
    next
      case False
      then have dc: "d \<in> set cs" using d by simp
      then have "d \<noteq> factory" "d \<noteq> fragment" using Cons.prems(4) by auto
      then have "nodes s1 d = nodes s d" using o1 False by simp
      then show ?thesis using s'(4) dc by simp
    qed
  qed
  have dd: "\<forall>q. q \<notin> set (c # cs) \<and> q \<noteq> factory \<and> q \<noteq> fragment \<longrightarrow> nodes s' q = nodes s q"
    using s'(5) o1 by auto
  have e: "next_ref s' = next_ref s" "docRange s' = docRange s" "nodeFactory s' = nodeFactory s"
    using s'(6,7,8) ap(2,3,4) by (simp_all add: s1_def)
  show ?case
    using step s'(1) a b cc dd e by simp
qed

lemma set_innerHTML_children:
  assumes "el < next_ref s"
  shows "distinct (childNodes (nodes (set_innerHTML h s el html) el)) \<and>
         (\<forall>r \<in> set (childNodes (nodes (set_innerHTML h s el html) el)). next_ref s \<le> r) \<and>
         list_all2 (describes (set_innerHTML h s el html) (Some el))
           (childNodes (nodes (set_innerHTML h s el html) el)) (parseHTML h html) \<and>
         nodeFactory (set_innerHTML h s el html) = nodeFactory s \<and>
         next_ref s \<le> next_ref (set_innerHTML h s el html) \<and>
         (\<forall>q < next_ref s. q \<noteq> el \<longrightarrow>
            childNodes (nodes (set_innerHTML h s el html) q) = childNodes (nodes s q) \<and>
            nodeType (nodes (set_innerHTML h s el html) q) = nodeType (nodes s q))"
proof -
  define s0 where "s0 = s\<lparr>nodes := (\<lambda>r. if r \<in> set (childNodes (nodes s el))
                                 then (nodes s r)\<lparr>parentNode := None\<rparr> else nodes s r)\<rparr>"
  obtain rs s1 where a: "alloc_forest h (Some el) (parseHTML h html) s0 = (rs, s1)"
    by (cases "alloc_forest h (Some el) (parseHTML h html) s0")
  have s4: "set_innerHTML h s el html = s1\<lparr>nodes := (nodes s1)(el := (nodes s1 el)\<lparr>childNodes := rs\<rparr>)\<rparr>"
    using a by (simp add: set_innerHTML_def Let_def s0_def)
  have n0: "next_ref s0 = next_ref s" "nodeFactory s0 = nodeFactory s"
    by (simp_all add: s0_def)
  have p: "next_ref s0 \<le> next_ref s1" "\<forall>q < next_ref s0. nodes s1 q = nodes s0 q"
    "nodeFactory s1 = nodeFactory s0"
    "\<forall>r \<in> set rs. next_ref s0 \<le> r \<and> r < next_ref s1" "distinct rs"
    "list_all2 (describes s1 (Some el)) rs (parseHTML h html)"
    using alloc_markup_forest(2) [OF a] by auto
  have ne: "\<forall>r \<in> set rs. r \<noteq> el" using p(4) assms n0 by auto
  have "list_all2 (describes (set_innerHTML h s el html) (Some el)) rs (parseHTML h html)"
    using p(6) ne
    by (auto simp add: s4 describes_def list_all2_conv_all_nth)
  moreover have "\<forall>q < next_ref s. q \<noteq> el \<longrightarrow>
            childNodes (nodes (set_innerHTML h s el html) q) = childNodes (nodes s q) \<and>
            nodeType (nodes (set_innerHTML h s el html) q) = nodeType (nodes s q)"
    using p(2) n0 by (simp add: s4) (simp add: s0_def)
  ultimately show ?thesis
    using p n0 by (simp add: s4)
qed

lemma getRange_state:
  "\<exists>rng s1. getRange h s = Inr (rng, s1) \<and> nodes s1 = nodes s \<and> next_ref s1 = next_ref s \<and>
     nodeFactory s1 = nodeFactory s"
  by (cases "docRange s") (simp_all add: getRange_def dom_range_def)

lemma getNodeFactory_fresh:
  assumes "nodeFactory s = None"
  shows "getNodeFactory h s =
     Inr (next_ref s,
          s\<lparr>nodes := (nodes s)(next_ref s := new_node h 1), next_ref := Suc (next_ref s),
            nodeFactory := Some (next_ref s)\<rparr>)"
  using assms
  by (simp add: getNodeFactory_def element_def createElement_def alloc_node_def)

lemma list_all2_describes_moved:
  assumes "list_all2 (describes s p) cs ms"
    and "\<forall>c \<in> set cs. nodes s' c = (nodes s c)\<lparr>parentNode := p'\<rparr>"
  shows "list_all2 (describes s' p') cs ms"
  using assms by (auto simp add: list_all2_conv_all_nth describes_def)

lemma list_all2_describes_parent:
  assumes "list_all2 (describes s p) cs ms" "c \<in> set cs"
  shows "parentNode (nodes s c) = p"
  using assms by (auto simp add: list_all2_conv_all_nth describes_def in_set_conv_nth)

text \<open>
  C2. When the range has no \<^verbatim>\<open>createContextualFragment\<close> and the markup is not empty,
  \<open>createFragment\<close> returns (the draining loop terminates); afterwards the scratch element
  has no children, and the children of the returned fragment are the nodes the parser
  produced for the markup, in the parser's order, each now with the fragment as parent.
  The scratch element is again an allocated object with no children, so the same holds
  for the next call, whatever its markup.
\<close>

theorem createFragment_drains_scratch:
  assumes no_method: "createContextualFragment h = None"
    and html: "html \<noteq> []"
    and alloc: "scratch_allocated s"
  shows "\<exists>fragment factory s'.
           createFragment h s html = Some (Inr (fragment, s')) \<and>
           nodeFactory s' = Some factory \<and>
           childNodes (nodes s' factory) = [] \<and>
           list_all2 (describes s' (Some fragment)) (childNodes (nodes s' fragment))
             (parseHTML h html) \<and>
           nodeType (nodes s' fragment) = Some 11 \<and>
           fragment \<noteq> factory \<and>
           (\<forall>f0. nodeFactory s = Some f0 \<longrightarrow> factory = f0) \<and>
           scratch_allocated s'"
proof -
  obtain rng s1 where g: "getRange h s = Inr (rng, s1)"
    and s1: "nodes s1 = nodes s" "next_ref s1 = next_ref s" "nodeFactory s1 = nodeFactory s"
    using getRange_state by blast
  define fr where "fr = next_ref s"
  define s2 where "s2 = s1\<lparr>nodes := (nodes s1)(fr := new_node h 11), next_ref := Suc fr\<rparr>"
  have cf: "createDocumentFragment h s1 = (fr, s2)"
    by (simp add: createDocumentFragment_def alloc_node_def s2_def fr_def s1)
  have s2: "next_ref s2 = Suc fr" "nodeFactory s2 = nodeFactory s" "nodes s2 fr = new_node h 11"
    by (simp_all add: s2_def s1)
  have "\<exists>f s3. getNodeFactory h s2 = Inr (f, s3) \<and> f \<noteq> fr \<and> f < next_ref s3 \<and>
          fr < next_ref s3 \<and> nodeFactory s3 = Some f \<and> nodes s3 fr = new_node h 11 \<and>
          (\<forall>f0. nodeFactory s = Some f0 \<longrightarrow> f = f0)"
  proof (cases "nodeFactory s")
    case None
    then have "nodeFactory s2 = None" using s2(2) by simp
    then show ?thesis
      using getNodeFactory_fresh [of s2 h] s2 by simp
  next
    case (Some f)
    then have "f < fr" using alloc by (simp add: scratch_allocated_def fr_def)
    moreover have "getNodeFactory h s2 = Inr (f, s2)"
      using Some s2(2) by (simp add: getNodeFactory_def)
    ultimately show ?thesis using s2 Some by auto
  qed
  then obtain f s3 where nf: "getNodeFactory h s2 = Inr (f, s3)"
    and f: "f \<noteq> fr" "f < next_ref s3" "fr < next_ref s3" "nodeFactory s3 = Some f"
      "nodes s3 fr = new_node h 11" "\<forall>f0. nodeFactory s = Some f0 \<longrightarrow> f = f0"
    by blast
  define s4 where "s4 = set_innerHTML h s3 f html"
  define cs where "cs = childNodes (nodes s4 f)"
  have inner: "distinct cs" "\<forall>r \<in> set cs. next_ref s3 \<le> r"
    "list_all2 (describes s4 (Some f)) cs (parseHTML h html)"
    "nodeFactory s4 = nodeFactory s3" "next_ref s3 \<le> next_ref s4"
    "childNodes (nodes s4 fr) = childNodes (nodes s3 fr)"
    "nodeType (nodes s4 fr) = nodeType (nodes s3 fr)"
    using set_innerHTML_children [OF f(2), of h html] f(1,3)
    by (simp_all add: s4_def cs_def)
  have frag4: "childNodes (nodes s4 fr) = []" "nodeType (nodes s4 fr) = Some 11"
    using inner(6,7) f(5) by (simp_all add: new_node_def)
  have pre: "\<forall>c \<in> set cs. parentNode (nodes s4 c) = Some f \<and> c \<noteq> f \<and> c \<noteq> fr"
  proof
    fix c assume c: "c \<in> set cs"
    have "parentNode (nodes s4 c) = Some f"
      using list_all2_describes_parent [OF inner(3) c] .
    moreover have "next_ref s3 \<le> c" using inner(2) c by simp
    ultimately show "parentNode (nodes s4 c) = Some f \<and> c \<noteq> f \<and> c \<noteq> fr"
      using f(2,3) by auto
  qed
  obtain s5 where d: "drain s4 f fr = Some s5"
    and s5: "nodes s5 f = (nodes s4 f)\<lparr>childNodes := []\<rparr>"
      "nodes s5 fr = (nodes s4 fr)\<lparr>childNodes := childNodes (nodes s4 fr) @ cs\<rparr>"
      "\<forall>c \<in> set cs. nodes s5 c = (nodes s4 c)\<lparr>parentNode := Some fr\<rparr>"
      "next_ref s5 = next_ref s4" "nodeFactory s5 = nodeFactory s4"
    using drain_children [OF f(1) cs_def [symmetric] inner(1) pre] by blast
  have res: "createFragment h s html = Some (Inr (fr, s5))"
    using html no_method g cf nf d by (simp add: createFragment_def s4_def)
  have kids: "childNodes (nodes s5 fr) = cs" using s5(2) frag4(1) by simp
  have "list_all2 (describes s5 (Some fr)) cs (parseHTML h html)"
    using list_all2_describes_moved [OF inner(3) s5(3)] .
  moreover have "nodeFactory s5 = Some f" using s5(5) inner(4) f(4) by simp
  moreover have "childNodes (nodes s5 f) = []" using s5(1) by simp
  moreover have "nodeType (nodes s5 fr) = Some 11" using s5(2) frag4(2) by simp
  moreover have "scratch_allocated s5"
    using s5(4,5) inner(4,5) f(2,4) by (simp add: scratch_allocated_def)
  ultimately show ?thesis
    using res kids f(1,6) by auto
qed

theorem createFragment_drains_scratch_witness:
  "\<exists>fragment1 s1 fragment2 s2 factory.
     createFragment old_host small_dom ''ab'' = Some (Inr (fragment1, s1)) \<and>
     createFragment old_host s1 ''c'' = Some (Inr (fragment2, s2)) \<and>
     nodeFactory s1 = Some factory \<and> nodeFactory s2 = Some factory \<and>
     childNodes (nodes s1 factory) = [] \<and> childNodes (nodes s2 factory) = [] \<and>
     length (childNodes (nodes s1 fragment1)) = 2 \<and>
     length (childNodes (nodes s2 fragment2)) = 1"
proof -
  have h: "createContextualFragment old_host = None"
    by (simp add: old_host_def)
  have a: "scratch_allocated small_dom"
    by (simp add: scratch_allocated_def small_dom_def)
  have p1: "length (parseHTML old_host ''ab'') = 2" and p2: "length (parseHTML old_host ''c'') = 1"
    by (simp_all add: old_host_def)
  obtain fragment1 factory s1 where 1:
    "createFragment old_host small_dom ''ab'' = Some (Inr (fragment1, s1))"
    "nodeFactory s1 = Some factory" "childNodes (nodes s1 factory) = []"
    "list_all2 (describes s1 (Some fragment1)) (childNodes (nodes s1 fragment1))
       (parseHTML old_host ''ab'')"
    "scratch_allocated s1"
    using createFragment_drains_scratch [OF h _ a, of "''ab''"] by auto
  obtain fragment2 factory2 s2 where 2:
    "createFragment old_host s1 ''c'' = Some (Inr (fragment2, s2))"
    "nodeFactory s2 = Some factory2" "childNodes (nodes s2 factory2) = []"
    "list_all2 (describes s2 (Some fragment2)) (childNodes (nodes s2 fragment2))
       (parseHTML old_host ''c'')"
    "\<forall>f0. nodeFactory s1 = Some f0 \<longrightarrow> factory2 = f0"
    using createFragment_drains_scratch [OF h _ 1(5), of "''c''"] by auto
  have same: "factory2 = factory"
    using 2(5) 1(2) by simp
  have "length (childNodes (nodes s1 fragment1)) = 2"
    using 1(4) p1 by (simp add: list_all2_lengthD)
  moreover have "length (childNodes (nodes s2 fragment2)) = 1"
    using 2(4) p2 by (simp add: list_all2_lengthD)
  ultimately show ?thesis using 1 2 same by blast
qed

subsection \<open>\<^verbatim>\<open>range\<close>\<close>





subsection \<open>\<^verbatim>\<open>event\<close>\<close>








subsection \<open>Selector strings in place of nodes\<close>

lemma resolveNode_Sel:
  "resolveNode h s (Sel sel) = from_host (querySelector h s document sel)"
  by simp













end
